theory Spec2Isabelle
  imports Main
begin

section \<open>Registration lock (utils/requestLock.js)\<close>

text \<open>
  \<^verbatim>\<open>RequestLock\<close> keeps a JavaScript \<^verbatim>\<open>Map\<close> from keys to
  \<^verbatim>\<open>{timestamp, timer}\<close>. The map is an association list in insertion order
  (the order \<^verbatim>\<open>entries()\<close> iterates in). The timers created by
  \<^verbatim>\<open>setTimeout\<close> live in the runtime, not in the object: they are a queue of
  pending callbacks, each of which calls \<^verbatim>\<open>this.release(key)\<close> for the key it
  closed over. Times are milliseconds on one clock, read by \<^verbatim>\<open>Date.now()\<close>.
\<close>

type_synonym key = string

record lock_info =
  timestamp :: nat
  timer :: nat

record pending_timer =
  tid :: nat
  tkey :: key
  due :: nat

record lock_state =
  locks :: "(key \<times> lock_info) list"
  timeout :: nat
  timers :: "pending_timer list"
  next_timer :: nat
  now :: nat

definition new_RequestLock :: "nat \<Rightarrow> lock_state" where
  "new_RequestLock t0 =
     \<lparr>locks = [], timeout = 5000, timers = [], next_timer = 0, now = t0\<rparr>"

definition has :: "key \<Rightarrow> lock_state \<Rightarrow> bool" where
  "has k s = (map_of (locks s) k \<noteq> None)"

definition setTimeout :: "key \<Rightarrow> nat \<Rightarrow> lock_state \<Rightarrow> nat \<times> lock_state" where
  "setTimeout k delay s =
     (next_timer s,
      s\<lparr>timers := timers s @ [\<lparr>tid = next_timer s, tkey = k, due = now s + delay\<rparr>],
        next_timer := Suc (next_timer s)\<rparr>)"

definition clearTimeout :: "nat \<Rightarrow> lock_state \<Rightarrow> lock_state" where
  "clearTimeout i s = s\<lparr>timers := filter (\<lambda>t. tid t \<noteq> i) (timers s)\<rparr>"

definition acquire :: "key \<Rightarrow> lock_state \<Rightarrow> bool \<times> lock_state" where
  "acquire k s =
     (if has k s then (False, s)
      else
        (let (h, s1) = setTimeout k (timeout s) s;
             lockInfo = \<lparr>timestamp = now s, timer = h\<rparr>
         in (True, s1\<lparr>locks := locks s1 @ [(k, lockInfo)]\<rparr>)))"

definition release :: "key \<Rightarrow> lock_state \<Rightarrow> lock_state" where
  "release k s =
     (case map_of (locks s) k of
        None \<Rightarrow> s
      | Some lockInfo \<Rightarrow>
          (clearTimeout (timer lockInfo) s)\<lparr>locks := filter (\<lambda>e. fst e \<noteq> k) (locks s)\<rparr>)"

text \<open>
  \<^verbatim>\<open>cleanup\<close> walks the entries and releases each one older than the window.
  Releasing the entry being visited removes only that entry, so the walk is a fold over
  the entries present when it starts.
\<close>

definition cleanup :: "lock_state \<Rightarrow> lock_state" where
  "cleanup s =
     (let n = now s in
      foldl (\<lambda>acc e. if n - timestamp (snd e) > timeout acc then release (fst e) acc else acc)
        s (locks s))"

text \<open>
  The event loop: a pending timer whose due time has been reached is taken off the queue
  and its callback, \<^verbatim>\<open>release(key)\<close>, runs; this repeats until no pending timer
  is due. \<open>tick d\<close> lets \<open>d\<close> milliseconds pass and then runs the due timers.
\<close>

function run_due :: "lock_state \<Rightarrow> lock_state" where
  "run_due s =
     (case find (\<lambda>t. due t \<le> now s) (timers s) of
        None \<Rightarrow> s
      | Some t \<Rightarrow>
          run_due (release (tkey t) (s\<lparr>timers := filter (\<lambda>x. tid x \<noteq> tid t) (timers s)\<rparr>)))"
  by pat_completeness auto

lemma timers_release_length:
  "length (timers (release k s)) \<le> length (timers s)"
  by (simp add: release_def clearTimeout_def split: option.split)

lemma find_Some_mem:
  "find P xs = Some x \<Longrightarrow> x \<in> set xs \<and> P x"
  by (induction xs) (auto split: if_splits)

termination run_due
proof (relation "measure (\<lambda>s. length (timers s))")
  show "wf (measure (\<lambda>s. length (timers s)))" by simp
next
  fix s :: lock_state and t :: pending_timer
  assume f: "find (\<lambda>t. due t \<le> now s) (timers s) = Some t"
  let ?s1 = "s\<lparr>timers := filter (\<lambda>x. tid x \<noteq> tid t) (timers s)\<rparr>"
  from f have "t \<in> set (timers s)" by (simp add: find_Some_mem)
  then have "length (filter (\<lambda>x. tid x \<noteq> tid t) (timers s)) < length (timers s)"
    by (intro length_filter_less[of t]) auto
  moreover have "length (timers (release (tkey t) ?s1)) \<le> length (timers ?s1)"
    by (rule timers_release_length)
  ultimately show "(release (tkey t) ?s1, s) \<in> measure (\<lambda>s. length (timers s))"
    by simp
qed

declare run_due.simps [simp del]

definition tick :: "nat \<Rightarrow> lock_state \<Rightarrow> lock_state" where
  "tick d s = run_due (s\<lparr>now := now s + d\<rparr>)"

text \<open>What can happen to the lock, one event at a time.\<close>

datatype event = Acquire key | Release key | Cleanup | Tick nat

fun step :: "event \<Rightarrow> lock_state \<Rightarrow> bool option \<times> lock_state" where
  "step (Acquire k) s = (let (b, s') = acquire k s in (Some b, s'))"
| "step (Release k) s = (None, release k s)"
| "step Cleanup s = (None, cleanup s)"
| "step (Tick d) s = (None, tick d s)"

fun run :: "event list \<Rightarrow> lock_state \<Rightarrow> lock_state" where
  "run [] s = s"
| "run (e # es) s = run es (snd (step e s))"

text \<open>The answers given to the \<^verbatim>\<open>acquire(k)\<close> calls among the events, in order.\<close>

fun acquire_results :: "key \<Rightarrow> event list \<Rightarrow> lock_state \<Rightarrow> bool list" where
  "acquire_results k [] s = []"
| "acquire_results k (e # es) s =
     (case step e s of
        (Some b, s') \<Rightarrow> (if e = Acquire k then b # acquire_results k es s'
                          else acquire_results k es s')
      | (None, s') \<Rightarrow> acquire_results k es s')"

text \<open>Events that neither release \<open>k\<close> nor let time pass (no timer fires, no sweep).\<close>

fun keeps :: "key \<Rightarrow> event \<Rightarrow> bool" where
  "keeps k (Acquire k') = True"
| "keeps k (Release k') = (k' \<noteq> k)"
| "keeps k Cleanup = False"
| "keeps k (Tick d) = False"

subsection \<open>Invariants of the lock\<close>

text \<open>No held entry is older than the window.\<close>

definition fresh :: "lock_state \<Rightarrow> bool" where
  "fresh s = (\<forall>e\<in>set (locks s). now s < timestamp (snd e) + timeout s)"

text \<open>The timer that \<^verbatim>\<open>acquire\<close> created for an entry.\<close>

definition timer_of :: "lock_state \<Rightarrow> key \<times> lock_info \<Rightarrow> pending_timer" where
  "timer_of s e = \<lparr>tid = timer (snd e), tkey = fst e, due = timestamp (snd e) + timeout s\<rparr>"

text \<open>
  Timer handles are unique, and every held entry still has its own timer pending
  (\<open>wf_core\<close>); in \<open>wf_lock\<close> no pending timer is overdue either.
\<close>

definition wf_core :: "lock_state \<Rightarrow> bool" where
  "wf_core s =
     (0 < timeout s \<and> distinct (map tid (timers s)) \<and>
      (\<forall>t\<in>set (timers s). tid t < next_timer s) \<and>
      (\<forall>e\<in>set (locks s). timer_of s e \<in> set (timers s)))"

definition wf_lock :: "lock_state \<Rightarrow> bool" where
  "wf_lock s = (wf_core s \<and> (\<forall>t\<in>set (timers s). now s < due t))"

text \<open>Between two states the entry of \<open>k\<close> is the same or gone, and the window is the same.\<close>

definition same_or_gone :: "key \<Rightarrow> lock_state \<Rightarrow> lock_state \<Rightarrow> bool" where
  "same_or_gone k s s' =
     (timeout s' = timeout s \<and>
      (map_of (locks s') k = None \<or> map_of (locks s') k = map_of (locks s) k))"

text \<open>
  Keys are held once, and every pending timer is the timer of a held entry: no timer
  is left behind by a release.
\<close>

definition owned :: "lock_state \<Rightarrow> bool" where
  "owned s =
     (distinct (map fst (locks s)) \<and>
      (\<forall>t\<in>set (timers s). \<exists>e\<in>set (locks s). t = timer_of s e))"

text \<open>\<open>k\<close> is held by the entry that was acquired at time \<open>T\<close>.\<close>

definition held_since :: "key \<Rightarrow> nat \<Rightarrow> lock_state \<Rightarrow> bool" where
  "held_since k T s =
     (case map_of (locks s) k of None \<Rightarrow> False | Some lockInfo \<Rightarrow> timestamp lockInfo = T)"

text \<open>The time that passes during an event, and during a list of events.\<close>

fun dur :: "event \<Rightarrow> nat" where
  "dur (Tick d) = d"
| "dur e = 0"

fun elapsed :: "event list \<Rightarrow> nat" where
  "elapsed [] = 0"
| "elapsed (e # es) = dur e + elapsed es"

section \<open>Session tokens\<close>

subsection \<open>Signed tokens (the jsonwebtoken library, as the code uses it)\<close>

text \<open>
  The payload signed at login is \<^verbatim>\<open>{id, userid, name, rememberMe}\<close>; the one signed
  at refresh has no \<^verbatim>\<open>rememberMe\<close>, and \<^verbatim>\<open>id\<close> is whatever
  \<^verbatim>\<open>user.userindex\<close> was, so both are optional here.
\<close>

record claims =
  c_id :: "nat option"
  c_userid :: string
  c_name :: string
  c_rememberMe :: "bool option"

text \<open>
  Tokens are strings in the source. Signatures are symbolic here: a string is either a
  well-formed token \<open>Jwt p i e k\<close> with payload \<open>p\<close>, issue time \<open>i\<close> and expiry
  \<open>e\<close> (seconds), whose signature was made with the secret \<open>k\<close>, or any other string
  \<open>Raw s\<close> (the empty string included). A signature verifies under a secret exactly
  when it was made with that secret.
\<close>

datatype token = Raw string | Jwt claims nat nat string

record decoded =
  payload :: claims
  iat :: nat
  exp :: nat

datatype error =
    TokenExpiredError
  | JsonWebTokenError
  | SigningError
  | StorageError
  | MissingUserId
  | MissingToken
  | MissingExpiry

text \<open>An environment variable that is unset, or set to the empty string, is falsy.\<close>

definition usable :: "string option \<Rightarrow> bool" where
  "usable sec = (case sec of None \<Rightarrow> False | Some k \<Rightarrow> k \<noteq> [])"

text \<open>
  \<^verbatim>\<open>jwt.sign(payload, secret, {expiresIn})\<close> at time \<open>t\<close> (milliseconds): the
  library throws when the secret is missing, and otherwise stamps
  \<^verbatim>\<open>iat = floor(t / 1000)\<close> and \<^verbatim>\<open>exp = iat + expiresIn\<close> (seconds).
\<close>

definition jwt_sign :: "claims \<Rightarrow> string option \<Rightarrow> nat \<Rightarrow> nat \<Rightarrow> error + token" where
  "jwt_sign p sec expiresIn t =
     (case sec of
        None \<Rightarrow> Inl SigningError
      | Some k \<Rightarrow>
          if k = [] then Inl SigningError
          else Inr (Jwt p (t div 1000) (t div 1000 + expiresIn) k))"

text \<open>
  \<^verbatim>\<open>jwt.verify(token, secret)\<close> at time \<open>t\<close>: a malformed token, a missing secret
  and a signature that does not verify each throw a \<^verbatim>\<open>JsonWebTokenError\<close>; after
  that, a token with \<^verbatim>\<open>floor(t / 1000) >= exp\<close> throws a
  \<^verbatim>\<open>TokenExpiredError\<close>; otherwise the decoded payload is returned, with
  \<^verbatim>\<open>iat\<close> and \<^verbatim>\<open>exp\<close> in it.
\<close>

fun jwt_verify :: "token \<Rightarrow> string option \<Rightarrow> nat \<Rightarrow> error + decoded" where
  "jwt_verify (Raw s) sec t = Inl JsonWebTokenError"
| "jwt_verify (Jwt p i e k) sec t =
     (if \<not> usable sec \<or> sec \<noteq> Some k then Inl JsonWebTokenError
      else if e \<le> t div 1000 then Inl TokenExpiredError
      else Inr \<lparr>payload = p, iat = i, exp = e\<rparr>)"

text \<open>The two conditions the guard tells apart, stated on the token itself.\<close>

definition signature_valid :: "string option \<Rightarrow> token \<Rightarrow> bool" where
  "signature_valid sec tok =
     (case tok of Raw s \<Rightarrow> False | Jwt p i e k \<Rightarrow> usable sec \<and> sec = Some k)"

definition ttl_passed :: "token \<Rightarrow> nat \<Rightarrow> bool" where
  "ttl_passed tok t = (case tok of Raw s \<Rightarrow> False | Jwt p i e k \<Rightarrow> e \<le> t div 1000)"

text \<open>The lifetime a token was signed with, \<^verbatim>\<open>exp - iat\<close>, in seconds.\<close>

definition lifetime :: "token option \<Rightarrow> nat option" where
  "lifetime v = (case v of Some (Jwt p i e k) \<Rightarrow> Some (e - i) | _ \<Rightarrow> None)"

subsection \<open>Tokens as text\<close>

text \<open>
  What bcrypt is given is the token's text, so the text of a signed token is needed:
  \<^verbatim>\<open>base64url(header) . base64url(payload) . signature\<close>, where the payload is
  the JSON text of the signed object. \<^verbatim>\<open>jwt.sign\<close> copies the object it is given
  and then adds \<^verbatim>\<open>iat\<close> and \<^verbatim>\<open>exp\<close>, so the keys come in the order
  \<^verbatim>\<open>id, userid, name, rememberMe, iat, exp\<close>; a key whose value is undefined is
  left out. String values are written as they are: no character of a user id needs
  escaping, and a name that needed it would change nothing before byte 28 of the payload.
\<close>

definition dq :: char where
  "dq = CHR 0x22"

function show_nat :: "nat \<Rightarrow> string" where
  "show_nat n =
     (if n < 10 then [char_of (48 + n)]
      else show_nat (n div 10) @ [char_of (48 + n mod 10)])"
  by pat_completeness auto

termination show_nat
  by (relation "measure id") auto

declare show_nat.simps [simp del]

definition json_payload :: "claims \<Rightarrow> nat \<Rightarrow> nat \<Rightarrow> string" where
  "json_payload p i e =
     ''{'' @
     (case c_id p of None \<Rightarrow> [] | Some n \<Rightarrow> [dq] @ ''id'' @ [dq] @ '':'' @ show_nat n @ '','') @
     [dq] @ ''userid'' @ [dq] @ '':'' @ [dq] @ c_userid p @ [dq] @ '','' @
     [dq] @ ''name'' @ [dq] @ '':'' @ [dq] @ c_name p @ [dq] @
     (case c_rememberMe p of
        None \<Rightarrow> []
      | Some b \<Rightarrow> '','' @ [dq] @ ''rememberMe'' @ [dq] @ '':'' @ (if b then ''true'' else ''false'')) @
     '','' @ [dq] @ ''iat'' @ [dq] @ '':'' @ show_nat i @
     '','' @ [dq] @ ''exp'' @ [dq] @ '':'' @ show_nat e @ ''}''"

text \<open>
  The payload text starts with the id and the user id; the name, the flag and the two
  times come after byte 27.
\<close>

definition payload_head :: "nat \<Rightarrow> string \<Rightarrow> string" where
  "payload_head n uid =
     ''{'' @ [dq] @ ''id'' @ [dq] @ '':'' @ show_nat n @ '','' @
     [dq] @ ''userid'' @ [dq] @ '':'' @ [dq] @ uid @ [dq] @ '','' @
     [dq] @ ''name'' @ [dq] @ '':'' @ [dq]"

definition jwt_header_json :: string where
  "jwt_header_json =
     ''{'' @ [dq] @ ''alg'' @ [dq] @ '':'' @ [dq] @ ''HS256'' @ [dq] @ '','' @
     [dq] @ ''typ'' @ [dq] @ '':'' @ [dq] @ ''JWT'' @ [dq] @ ''}''"

definition b64_char :: "nat \<Rightarrow> char" where
  "b64_char n =
     ''ABCDEFGHIJKLMNOPQRSTUVWXYZabcdefghijklmnopqrstuvwxyz0123456789-_'' ! (n mod 64)"

text \<open>Three bytes become four characters; the last one or two bytes become two or
  three, with no padding.\<close>

fun base64url :: "string \<Rightarrow> string" where
  "base64url (a # b # c # xs) =
     (let n = of_char a * 65536 + of_char b * 256 + of_char c
      in [b64_char (n div 262144), b64_char (n div 4096), b64_char (n div 64), b64_char n])
     @ base64url xs"
| "base64url [a, b] =
     (let n = of_char a * 1024 + of_char b * 4
      in [b64_char (n div 4096), b64_char (n div 64), b64_char n])"
| "base64url [a] =
     (let n = of_char a * 16 in [b64_char (n div 64), b64_char n])"
| "base64url [] = []"

subsection \<open>Environment\<close>

text \<open>
  \<^verbatim>\<open>process.env\<close> and the two cryptographic primitives. The two lifetimes are in
  seconds (the defaults \<^verbatim>\<open>'1h'\<close> and \<^verbatim>\<open>'7d'\<close> are 3600 and 604800).
  \<open>hmac ev k text\<close> is the signature text HMAC-SHA256 gives for \<open>text\<close>
  under the secret \<open>k\<close>, and \<open>digest ev salt text\<close> the digest bcrypt computes
  for \<open>text\<close> under \<open>salt\<close>; both are parameters, and nothing is assumed about
  either.
\<close>

record env =
  ACCESS_TOKEN_SECRET :: "string option"
  REFRESH_TOKEN_SECRET :: "string option"
  ACCESS_TOKEN_EXPIRES_IN :: nat
  REFRESH_TOKEN_EXPIRES_IN :: nat
  isProduction :: bool
  hmac :: "string \<Rightarrow> string \<Rightarrow> string"
  digest :: "nat \<Rightarrow> string \<Rightarrow> string"

definition compact :: "env \<Rightarrow> token \<Rightarrow> string" where
  "compact ev tok =
     (case tok of
        Raw s \<Rightarrow> s
      | Jwt p i e k \<Rightarrow>
          (let signing_input =
                 base64url jwt_header_json @ ''.'' @ base64url (json_payload p i e)
           in signing_input @ ''.'' @ hmac ev k signing_input))"

record bhash =
  salt :: nat
  hashed :: string

text \<open>
  \<^verbatim>\<open>bcrypt.hash\<close> draws a fresh salt and keeps it in its result;
  \<^verbatim>\<open>bcrypt.compare\<close> hashes again under that salt and compares. bcrypt uses only
  the first 72 bytes of its input.
\<close>

definition bcrypt_hash :: "env \<Rightarrow> nat \<Rightarrow> token \<Rightarrow> bhash" where
  "bcrypt_hash ev slt tok = \<lparr>salt = slt, hashed = digest ev slt (take 72 (compact ev tok))\<rparr>"

definition bcrypt_compare :: "env \<Rightarrow> token \<Rightarrow> bhash \<Rightarrow> bool" where
  "bcrypt_compare ev tok h = (digest ev (salt h) (take 72 (compact ev tok)) = hashed h)"

subsection \<open>The store (models/tokenModel.js, models/userModel.js)\<close>

text \<open>
  The \<^verbatim>\<open>refresh_token\<close> table is the list of its rows in the order a
  \<^verbatim>\<open>select('*')\<close> returns them; \<^verbatim>\<open>expires_at\<close> is in milliseconds. Every
  query may fail: \<open>faults\<close> says, for the queries still to come, which of them return
  an \<^verbatim>\<open>error\<close> (none once the list is used up).
\<close>

record row =
  rid :: nat
  user_id :: nat
  token :: bhash
  expires_at :: nat

record user =
  userindex :: "nat option"
  userid :: string
  name :: string
  email :: string

record db =
  refresh_token :: "row list"
  next_id :: nat
  users :: "user list"
  faults :: "bool list"

definition query :: "db \<Rightarrow> bool \<times> db" where
  "query d =
     (case faults d of
        [] \<Rightarrow> (False, d)
      | f # fs \<Rightarrow> (f, d\<lparr>faults := fs\<rparr>))"

text \<open>Whether the storage call made \<open>n\<close> calls from now fails.\<close>

definition fault_at :: "db \<Rightarrow> nat \<Rightarrow> bool" where
  "fault_at d n = (case drop n (faults d) of [] \<Rightarrow> False | f # fs \<Rightarrow> f)"

definition no_faults :: "db \<Rightarrow> bool" where
  "no_faults d = (True \<notin> set (faults d))"

definition Token_deleteRefreshToken :: "nat \<Rightarrow> db \<Rightarrow> (error + bool) \<times> db" where
  "Token_deleteRefreshToken userId d =
     (if userId = 0 then (Inl MissingUserId, d)
      else
        (let (failed, d1) = query d in
         if failed then (Inl StorageError, d1)
         else (Inr True,
               d1\<lparr>refresh_token := filter (\<lambda>r. user_id r \<noteq> userId) (refresh_token d1)\<rparr>)))"

definition Token_saveRefreshToken ::
  "nat \<Rightarrow> bhash option \<Rightarrow> nat option \<Rightarrow> db \<Rightarrow> (error + row) \<times> db" where
  "Token_saveRefreshToken userId hashedToken expiresAt d =
     (if userId = 0 then (Inl MissingUserId, d)
      else case hashedToken of
        None \<Rightarrow> (Inl MissingToken, d)
      | Some h \<Rightarrow>
         (case expiresAt of
            None \<Rightarrow> (Inl MissingExpiry, d)
          | Some ex \<Rightarrow>
             (case Token_deleteRefreshToken userId d of
                (Inl e, d1) \<Rightarrow> (Inl e, d1)
              | (Inr _, d1) \<Rightarrow>
                 (let (failed, d2) = query d1 in
                  if failed then (Inl StorageError, d2)
                  else
                    (let data = \<lparr>rid = next_id d2, user_id = userId, token = h,
                                 expires_at = ex\<rparr>
                     in (Inr data,
                         d2\<lparr>refresh_token := refresh_token d2 @ [data],
                            next_id := Suc (next_id d2)\<rparr>))))))"

definition Token_findRefreshToken :: "env \<Rightarrow> token \<Rightarrow> db \<Rightarrow> (error + row option) \<times> db" where
  "Token_findRefreshToken ev plainToken d =
     (let (failed, d1) = query d in
      if failed then (Inl StorageError, d1)
      else (Inr (find (\<lambda>r. bcrypt_compare ev plainToken (token r)) (refresh_token d1)), d1))"

definition Token_deleteRefreshTokenByToken ::
  "env \<Rightarrow> token \<Rightarrow> db \<Rightarrow> (error + bool) \<times> db" where
  "Token_deleteRefreshTokenByToken ev plainToken d =
     (case Token_findRefreshToken ev plainToken d of
        (Inl e, d1) \<Rightarrow> (Inl e, d1)
      | (Inr None, d1) \<Rightarrow> (Inr False, d1)
      | (Inr (Some tokenRecord), d1) \<Rightarrow>
          (let (failed, d2) = query d1 in
           if failed then (Inl StorageError, d2)
           else (Inr True,
                 d2\<lparr>refresh_token :=
                      filter (\<lambda>r. rid r \<noteq> rid tokenRecord) (refresh_token d2)\<rparr>)))"

text \<open>\<^verbatim>\<open>User.findByUserid\<close>: no row is \<^verbatim>\<open>null\<close>, any other error is thrown.\<close>

definition User_findByUserid :: "string \<Rightarrow> db \<Rightarrow> (error + user option) \<times> db" where
  "User_findByUserid uid d =
     (let (failed, d1) = query d in
      if failed then (Inl StorageError, d1)
      else (Inr (find (\<lambda>u. userid u = uid) (users d1)), d1))"

subsection \<open>Properties of the store\<close>

text \<open>At most one row per user.\<close>

definition one_row_per_user :: "db \<Rightarrow> bool" where
  "one_row_per_user d = distinct (map user_id (refresh_token d))"

text \<open>No stored hash matches the given plaintext token.\<close>

definition unmatched :: "env \<Rightarrow> token \<Rightarrow> db \<Rightarrow> bool" where
  "unmatched ev tok d = (find (\<lambda>r. bcrypt_compare ev tok (token r)) (refresh_token d) = None)"

subsection \<open>Token utilities (utils/tokenUtil.js)\<close>

definition generateAccessToken :: "env \<Rightarrow> claims \<Rightarrow> nat \<Rightarrow> error + token" where
  "generateAccessToken ev p t =
     (case jwt_sign p (ACCESS_TOKEN_SECRET ev) (ACCESS_TOKEN_EXPIRES_IN ev) t of
        Inl e \<Rightarrow> Inl SigningError
      | Inr tok \<Rightarrow> Inr tok)"

definition generateRefreshToken :: "env \<Rightarrow> claims \<Rightarrow> nat \<Rightarrow> error + token" where
  "generateRefreshToken ev p t =
     (case jwt_sign p (REFRESH_TOKEN_SECRET ev) (REFRESH_TOKEN_EXPIRES_IN ev) t of
        Inl e \<Rightarrow> Inl SigningError
      | Inr tok \<Rightarrow> Inr tok)"

definition saveRefreshToken ::
  "env \<Rightarrow> nat \<Rightarrow> nat \<Rightarrow> token \<Rightarrow> nat \<Rightarrow> db \<Rightarrow> (error + row) \<times> db" where
  "saveRefreshToken ev slt userId refreshTok t d =
     (let hashedToken = bcrypt_hash ev slt refreshTok;
          expiresAt = t + 7 * 24 * 60 * 60 * 1000
      in Token_saveRefreshToken userId (Some hashedToken) (Some expiresAt) d)"

text \<open>
  \<^verbatim>\<open>verifyRefreshToken\<close> catches whatever is thrown inside it and returns
  \<^verbatim>\<open>null\<close>. One time \<open>t\<close> stands for the clock during the call.
\<close>

definition verifyRefreshToken :: "env \<Rightarrow> token \<Rightarrow> nat \<Rightarrow> db \<Rightarrow> decoded option \<times> db" where
  "verifyRefreshToken ev refreshTok t d =
     (case jwt_verify refreshTok (REFRESH_TOKEN_SECRET ev) t of
        Inl e \<Rightarrow> (None, d)
      | Inr dec \<Rightarrow>
         (case Token_findRefreshToken ev refreshTok d of
            (Inl e, d1) \<Rightarrow> (None, d1)
          | (Inr None, d1) \<Rightarrow> (None, d1)
          | (Inr (Some tokenRecord), d1) \<Rightarrow>
              if t > expires_at tokenRecord
              then (None, snd (Token_deleteRefreshTokenByToken ev refreshTok d1))
              else (Some dec, d1)))"

subsection \<open>Requests and responses\<close>

text \<open>
  The \<^verbatim>\<open>Authorization\<close> header is absent, or does not start with
  \<^verbatim>\<open>'Bearer '\<close>, or is \<^verbatim>\<open>'Bearer '\<close> followed by text whose first
  space-separated segment (\<^verbatim>\<open>split(' ')[1]\<close>) is the token given.
\<close>

datatype auth_header = NoHeader | OtherHeader | Bearer token

datatype token_type = accessToken | refreshToken

record request =
  authorization :: auth_header
  body :: "token_type \<Rightarrow> token option"
  cookies :: "token_type \<Rightarrow> token option"
  user :: "decoded option"

text \<open>A value is truthy unless it is missing or the empty string.\<close>

definition truthy :: "token option \<Rightarrow> bool" where
  "truthy v = (v \<noteq> None \<and> v \<noteq> Some (Raw []))"

definition extractToken :: "request \<Rightarrow> token_type \<Rightarrow> token option" where
  "extractToken req tokenType =
     (case authorization req of
        Bearer tok \<Rightarrow> Some tok
      | _ \<Rightarrow>
         if truthy (body req tokenType) then body req tokenType
         else if truthy (cookies req tokenType) then cookies req tokenType
         else None)"

datatype same_site = SameSiteNone | SameSiteLax

datatype cookie_value = TokenValue token | BoolValue bool

record cookie_options =
  httpOnly :: bool
  secure :: bool
  sameSite :: same_site
  path :: string

record cookie =
  cname :: string
  cvalue :: cookie_value
  options :: cookie_options
  maxAge :: nat

text \<open>The messages of the handlers, by what they say.\<close>

datatype message =
    TokenRequired
  | TokenExpired
  | TokenInvalid
  | RefreshTokenMissing
  | RefreshTokenInvalidOrExpired
  | UserNotFound
  | AccessTokenRefreshed
  | LoggedOut
  | ServerError
  | BadUserId
  | LoginOkButTokenSaveFailed
  | LoginOk

record response =
  status :: nat
  success :: bool
  msg :: message
  expired :: "bool option"
  out_accessToken :: "token option"
  out_refreshToken :: "token option"
  out_rememberMe :: "bool option"
  set_cookies :: "cookie list"
  cleared_cookies :: "(string \<times> cookie_options option) list"

definition reply :: "nat \<Rightarrow> bool \<Rightarrow> message \<Rightarrow> response" where
  "reply st ok m =
     \<lparr>status = st, success = ok, msg = m, expired = None, out_accessToken = None,
      out_refreshToken = None, out_rememberMe = None, set_cookies = [],
      cleared_cookies = []\<rparr>"

definition cookieOptions :: "env \<Rightarrow> bool \<Rightarrow> cookie_options" where
  "cookieOptions ev ho =
     \<lparr>httpOnly = ho, secure = isProduction ev,
      sameSite = (if isProduction ev then SameSiteNone else SameSiteLax), path = ''/''\<rparr>"

definition setTokenCookies :: "env \<Rightarrow> token \<Rightarrow> token \<Rightarrow> bool \<Rightarrow> cookie list" where
  "setTokenCookies ev accessTok refreshTok rememberMe =
     (let refreshMaxAge =
            (if rememberMe then 30 * 24 * 60 * 60 * 1000 else 7 * 24 * 60 * 60 * 1000)
      in [\<lparr>cname = ''accessToken'', cvalue = TokenValue accessTok,
            options = cookieOptions ev True, maxAge = 60 * 60 * 1000\<rparr>,
          \<lparr>cname = ''refreshToken'', cvalue = TokenValue refreshTok,
            options = cookieOptions ev True, maxAge = refreshMaxAge\<rparr>,
          \<lparr>cname = ''rememberMe'', cvalue = BoolValue rememberMe,
            options = cookieOptions ev False, maxAge = refreshMaxAge\<rparr>])"

subsection \<open>The access-token guard (middlewares/authMiddleware.js)\<close>

datatype outcome = Next request | Respond response

definition verifyToken :: "env \<Rightarrow> request \<Rightarrow> nat \<Rightarrow> outcome" where
  "verifyToken ev req t =
     (case extractToken req accessToken of
        None \<Rightarrow> Respond (reply 401 False TokenRequired)
      | Some tok \<Rightarrow>
          if tok = Raw [] then Respond (reply 401 False TokenRequired)
          else
            (case jwt_verify tok (ACCESS_TOKEN_SECRET ev) t of
               Inr dec \<Rightarrow> Next (req\<lparr>user := Some dec\<rparr>)
             | Inl e \<Rightarrow>
                 if e = TokenExpiredError
                 then Respond ((reply 401 False TokenExpired)\<lparr>expired := Some True\<rparr>)
                 else Respond (reply 403 False TokenInvalid)))"

subsection \<open>Login (controllers/userController.js)\<close>

text \<open>
  The handler from the point where \<^verbatim>\<open>User.authenticate\<close> has returned
  \<open>usr\<close>; before that point it only answers 400, 401 or 500 and issues nothing.
  \<open>slt\<close> is the salt bcrypt draws.
\<close>

definition login_issue ::
  "env \<Rightarrow> nat \<Rightarrow> user \<Rightarrow> bool \<Rightarrow> nat \<Rightarrow> db \<Rightarrow> response \<times> db" where
  "login_issue ev slt usr rememberMe t d =
     (case userindex usr of
        None \<Rightarrow> (reply 500 False BadUserId, d)
      | Some uidx \<Rightarrow>
         (let userInfo = \<lparr>c_id = Some uidx, c_userid = userid usr, c_name = name usr,
                           c_rememberMe = Some rememberMe\<rparr>
          in case generateAccessToken ev userInfo t of
               Inl e \<Rightarrow> (reply 500 False ServerError, d)
             | Inr accessTok \<Rightarrow>
                (case generateRefreshToken ev userInfo t of
                   Inl e \<Rightarrow> (reply 500 False ServerError, d)
                 | Inr refreshTok \<Rightarrow>
                    (case saveRefreshToken ev slt uidx refreshTok t d of
                       (Inl e, d1) \<Rightarrow> (reply 500 False LoginOkButTokenSaveFailed, d1)
                     | (Inr _, d1) \<Rightarrow>
                        ((reply 200 True LoginOk)
                           \<lparr>out_accessToken := Some accessTok,
                            out_refreshToken := Some refreshTok,
                            out_rememberMe := Some rememberMe,
                            set_cookies :=
                              setTokenCookies ev accessTok refreshTok rememberMe\<rparr>,
                         d1)))))"

subsection \<open>Refresh and logout (controllers/authController.js, routes/authRoutes.js)\<close>

definition authController_refreshToken ::
  "env \<Rightarrow> request \<Rightarrow> nat \<Rightarrow> db \<Rightarrow> response \<times> db" where
  "authController_refreshToken ev req t d =
     (case extractToken req refreshToken of
        None \<Rightarrow> (reply 400 False RefreshTokenMissing, d)
      | Some refreshTok \<Rightarrow>
         if refreshTok = Raw [] then (reply 400 False RefreshTokenMissing, d)
         else
           (case verifyRefreshToken ev refreshTok t d of
              (None, d1) \<Rightarrow>
                ((reply 401 False RefreshTokenInvalidOrExpired)
                   \<lparr>cleared_cookies := [(''accessToken'', None), (''refreshToken'', None)]\<rparr>,
                 d1)
            | (Some dec, d1) \<Rightarrow>
               (case User_findByUserid (c_userid (payload dec)) d1 of
                  (Inl e, d2) \<Rightarrow> (reply 500 False ServerError, d2)
                | (Inr None, d2) \<Rightarrow>
                    ((reply 404 False UserNotFound)
                       \<lparr>cleared_cookies :=
                          [(''accessToken'', None), (''refreshToken'', None)]\<rparr>,
                     d2)
                | (Inr (Some usr), d2) \<Rightarrow>
                   (let userInfo = \<lparr>c_id = userindex usr, c_userid = userid usr,
                                     c_name = name usr, c_rememberMe = None\<rparr>
                    in case generateAccessToken ev userInfo t of
                         Inl e \<Rightarrow> (reply 500 False ServerError, d2)
                       | Inr accessTok \<Rightarrow>
                          ((reply 200 True AccessTokenRefreshed)
                             \<lparr>out_accessToken := Some accessTok,
                              set_cookies :=
                                [\<lparr>cname = ''accessToken'', cvalue = TokenValue accessTok,
                                  options = cookieOptions ev True,
                                  maxAge = 60 * 60 * 1000\<rparr>]\<rparr>,
                           d2)))))"

text \<open>What a refresh answers when the refresh token does not verify.\<close>

definition refresh_rejected :: response where
  "refresh_rejected =
     (reply 401 False RefreshTokenInvalidOrExpired)
       \<lparr>cleared_cookies := [(''accessToken'', None), (''refreshToken'', None)]\<rparr>"

text \<open>What a successful logout answers: 200 and all three cookies cleared.\<close>

definition logout_ok :: "env \<Rightarrow> response" where
  "logout_ok ev =
     (reply 200 True LoggedOut)
       \<lparr>cleared_cookies :=
          [(''accessToken'', Some (cookieOptions ev True)),
           (''refreshToken'', Some (cookieOptions ev True)),
           (''rememberMe'', Some (cookieOptions ev False))]\<rparr>"

definition authController_logout :: "env \<Rightarrow> request \<Rightarrow> db \<Rightarrow> response \<times> db" where
  "authController_logout ev req d =
     (let refreshTok = extractToken req refreshToken;
          userId = (case user req of None \<Rightarrow> None | Some u \<Rightarrow> c_id (payload u))
      in if truthy refreshTok
         then (case refreshTok of
                 None \<Rightarrow> (logout_ok ev, d)
               | Some tok \<Rightarrow>
                  (case Token_deleteRefreshTokenByToken ev tok d of
                     (Inl e, d1) \<Rightarrow> (reply 500 False ServerError, d1)
                   | (Inr _, d1) \<Rightarrow> (logout_ok ev, d1)))
         else (case userId of
                 None \<Rightarrow> (logout_ok ev, d)
               | Some uidx \<Rightarrow>
                  if uidx = 0 then (logout_ok ev, d)
                  else
                    (case Token_deleteRefreshToken uidx d of
                       (Inl e, d1) \<Rightarrow> (reply 500 False ServerError, d1)
                     | (Inr _, d1) \<Rightarrow> (logout_ok ev, d1))))"

text \<open>
  The route \<^verbatim>\<open>POST /logout\<close> first tries the bearer token as an access token and
  sets \<^verbatim>\<open>req.user\<close> when it verifies; it goes on to the handler either way.
\<close>

definition optional_auth :: "env \<Rightarrow> request \<Rightarrow> nat \<Rightarrow> request" where
  "optional_auth ev req t =
     (case authorization req of
        Bearer tok \<Rightarrow>
          (case jwt_verify tok (ACCESS_TOKEN_SECRET ev) t of
             Inr dec \<Rightarrow> req\<lparr>user := Some dec\<rparr>
           | Inl e \<Rightarrow> req)
      | _ \<Rightarrow> req)"

definition logout_route :: "env \<Rightarrow> request \<Rightarrow> nat \<Rightarrow> db \<Rightarrow> response \<times> db" where
  "logout_route ev req t d = authController_logout ev (optional_auth ev req t) d"


subsection \<open>Sample data\<close>

text \<open>
  The default configuration (one hour, seven days) with two secrets. The sample digest
  returns its input, so it tells apart any two inputs that differ in their first 72
  bytes.
\<close>

definition env0 :: env where
  "env0 =
     \<lparr>ACCESS_TOKEN_SECRET = Some ''a-secret'', REFRESH_TOKEN_SECRET = Some ''r-secret'',
      ACCESS_TOKEN_EXPIRES_IN = 3600, REFRESH_TOKEN_EXPIRES_IN = 604800,
      isProduction = False,
      hmac = (\<lambda>k text. k),
      digest = (\<lambda>slt text. text)\<rparr>"

definition alice :: claims where
  "alice = \<lparr>c_id = Some 1, c_userid = ''alice'', c_name = ''Alice'', c_rememberMe = Some False\<rparr>"

definition alice_user :: user where
  "alice_user = \<lparr>userindex = Some 1, userid = ''alice'', name = ''Alice'', email = ''a@x''\<rparr>"

definition db0 :: db where
  "db0 = \<lparr>refresh_token = [], next_id = 1, users = [alice_user], faults = []\<rparr>"

definition bearer :: "token \<Rightarrow> request" where
  "bearer tok =
     \<lparr>authorization = Bearer tok, body = (\<lambda>_. None), cookies = (\<lambda>_. None), user = None\<rparr>"

text \<open>A deployment that sets \<^verbatim>\<open>REFRESH_TOKEN_EXPIRES_IN\<close> to thirty days.\<close>

definition env30 :: env where
  "env30 = env0\<lparr>REFRESH_TOKEN_EXPIRES_IN := 2592000\<rparr>"

text \<open>The store after the sample user has logged in at time 0.\<close>

definition logged_in :: "env \<Rightarrow> db" where
  "logged_in ev = snd (login_issue ev 7 alice_user False 0 db0)"

text \<open>The default configuration with any HMAC and any bcrypt digest.\<close>

definition env_with :: "(string \<Rightarrow> string \<Rightarrow> string) \<Rightarrow> (nat \<Rightarrow> string \<Rightarrow> string) \<Rightarrow> env" where
  "env_with hm dg = env0\<lparr>hmac := hm, digest := dg\<rparr>"

text \<open>The store after the sample user has logged in a second time, one second later.\<close>

definition logged_in_again :: "env \<Rightarrow> db" where
  "logged_in_again ev = snd (login_issue ev 8 alice_user False 1000 (logged_in ev))"

section \<open>Registration lock: proofs\<close>

lemma acquire_held: "has k s \<Longrightarrow> acquire k s = (False, s)"
  by (simp add: acquire_def)

lemma has_append: "has k (s\<lparr>locks := locks s @ [(k', i)]\<rparr>) = (has k s \<or> k' = k)"
  by (auto simp: has_def map_add_def split: option.splits)

lemma acquire_free: "\<not> has k s \<Longrightarrow> fst (acquire k s) \<and> has k (snd (acquire k s))"
  by (simp add: acquire_def setTimeout_def has_def Let_def)

lemma has_acquire_mono: "has k s \<Longrightarrow> has k (snd (acquire k' s))"
  by (auto simp: acquire_def setTimeout_def has_def Let_def)

lemma map_of_filter_fst: "map_of (filter (\<lambda>e. fst e \<noteq> k') xs) k = (if k = k' then None else map_of xs k)"
  by (induction xs) auto

lemma has_release: "has k (release k' s) = (has k s \<and> k \<noteq> k')"
  by (auto simp: release_def has_def clearTimeout_def map_of_filter_fst split: option.splits)

lemma release_unheld: "\<not> has k s \<Longrightarrow> release k s = s"
  by (simp add: release_def has_def)

lemma release_idem: "release k (release k s) = release k s"
  by (rule release_unheld) (simp add: has_release)

lemma has_acquire_mono': "has k s \<Longrightarrow> acquire k' s = (b, s') \<Longrightarrow> has k s'"
  using has_acquire_mono[of k s k'] by simp

lemma keeps_has: "keeps k e \<Longrightarrow> has k s \<Longrightarrow> has k (snd (step e s))"
  by (cases e) (auto simp: has_release split: prod.splits dest: has_acquire_mono')

lemma held_results:
  "has k s \<Longrightarrow> \<forall>e\<in>set es. keeps k e \<Longrightarrow>
   acquire_results k es s = replicate (count_list es (Acquire k)) False"
proof (induction es arbitrary: s)
  case Nil
  then show ?case by simp
next
  case (Cons e es)
  then have h: "has k (snd (step e s))" by (simp add: keeps_has)
  show ?case
  proof (cases e)
    case (Acquire k')
    then show ?thesis using Cons h
      by (auto simp: acquire_held split: prod.splits)
  qed (use Cons h in \<open>auto split: prod.splits\<close>)
qed


lemma wf_fresh: "wf_lock s \<Longrightarrow> fresh s"
  by (fastforce simp: wf_lock_def wf_core_def fresh_def timer_of_def)

lemma wf_new: "wf_lock (new_RequestLock t0)"
  by (simp add: wf_lock_def wf_core_def new_RequestLock_def)

lemma wf_acquire: "wf_lock s \<Longrightarrow> wf_lock (snd (acquire k s))"
  by (auto simp: wf_lock_def wf_core_def timer_of_def acquire_def setTimeout_def Let_def)

lemma other_timer:
  assumes wf: "wf_core s" and e: "e \<in> set (locks s)" and t: "t \<in> set (timers s)"
    and ne: "tkey t \<noteq> fst e"
  shows "timer (snd e) \<noteq> tid t"
proof
  assume eq: "timer (snd e) = tid t"
  from wf e have m: "timer_of s e \<in> set (timers s)" by (simp add: wf_core_def)
  from wf have "inj_on tid (set (timers s))" by (simp add: wf_core_def distinct_map)
  then have "timer_of s e = t"
    using m t eq by (intro inj_onD[where f=tid and A="set (timers s)"]) (simp_all add: timer_of_def)
  then have "tkey t = fst e" by (auto simp: timer_of_def)
  with ne show False by simp
qed

lemma wf_core_drop:
  assumes wf: "wf_core s"
    and T: "set ts' \<subseteq> set (timers s)" "distinct (map tid ts')"
    and L: "set ls' \<subseteq> set (locks s)"
    and K: "\<forall>e\<in>set ls'. timer_of s e \<in> set ts'"
  shows "wf_core (s\<lparr>timers := ts', locks := ls'\<rparr>)"
  using assms by (auto simp: wf_core_def timer_of_def)

lemma wf_core_release: "wf_core s \<Longrightarrow> wf_core (release k s)"
proof (cases "map_of (locks s) k")
  case None
  then show "wf_core s \<Longrightarrow> ?thesis" by (simp add: release_def)
next
  case (Some info)
  assume wf: "wf_core s"
  have rel: "release k s = s\<lparr>timers := filter (\<lambda>t. tid t \<noteq> timer info) (timers s),
                locks := filter (\<lambda>e. fst e \<noteq> k) (locks s)\<rparr>"
    using Some by (simp add: release_def clearTimeout_def)
  from Some have kin: "(k, info) \<in> set (locks s)" by (rule map_of_SomeD)
  with wf have tk: "timer_of s (k, info) \<in> set (timers s)"
    by (simp add: wf_core_def)
  have keep: "timer (snd e) \<noteq> timer info" if "e \<in> set (locks s)" "fst e \<noteq> k" for e
    using other_timer[OF wf that(1) tk] that(2) by (simp add: timer_of_def)
  show ?thesis unfolding rel
  proof (rule wf_core_drop[OF wf])
    show "distinct (map tid (filter (\<lambda>t. tid t \<noteq> timer info) (timers s)))"
      using wf by (simp add: wf_core_def distinct_map_filter)
    show "\<forall>e\<in>set (filter (\<lambda>e. fst e \<noteq> k) (locks s)).
            timer_of s e \<in> set (filter (\<lambda>t. tid t \<noteq> timer info) (timers s))"
      using wf keep by (auto simp: wf_core_def timer_of_def)
  qed auto
qed

lemma due_release: "\<forall>t\<in>set (timers s). P (due t) \<Longrightarrow> \<forall>t\<in>set (timers (release k s)). P (due t)"
  by (auto simp: release_def clearTimeout_def split: option.splits)

lemma now_release [simp]: "now (release k s) = now s"
  by (simp add: release_def clearTimeout_def split: option.splits)

lemma timeout_release [simp]: "timeout (release k s) = timeout s"
  by (simp add: release_def clearTimeout_def split: option.splits)

lemma wf_release: "wf_lock s \<Longrightarrow> wf_lock (release k s)"
  unfolding wf_lock_def using wf_core_release[of s k] due_release[of s "\<lambda>d. now s < d" k]
  by simp

lemma wf_cleanup_fold:
  "wf_lock acc \<Longrightarrow>
   wf_lock (foldl (\<lambda>acc e. if n - timestamp (snd e) > timeout acc then release (fst e) acc else acc) acc es)"
  by (induction es arbitrary: acc) (simp_all add: wf_release)

lemma wf_cleanup: "wf_lock s \<Longrightarrow> wf_lock (cleanup s)"
  by (simp add: cleanup_def Let_def wf_cleanup_fold)

text \<open>Firing one timer.\<close>

lemma wf_core_fire:
  assumes wf: "wf_core s" and t: "t \<in> set (timers s)"
  shows "wf_core (release (tkey t) (s\<lparr>timers := filter (\<lambda>x. tid x \<noteq> tid t) (timers s)\<rparr>))"
proof -
  let ?s1 = "s\<lparr>timers := filter (\<lambda>x. tid x \<noteq> tid t) (timers s)\<rparr>"
  have keep: "timer (snd e) \<noteq> tid t" if "e \<in> set (locks s)" "fst e \<noteq> tkey t" for e
    using other_timer[OF wf that(1) t] that(2) by simp
  show ?thesis
  proof (cases "map_of (locks s) (tkey t)")
    case None
    then have "\<forall>e\<in>set (locks s). fst e \<noteq> tkey t"
      by (metis map_of_eq_None_iff image_eqI)
    with keep have k2: "\<forall>e\<in>set (locks s). timer (snd e) \<noteq> tid t" by blast
    have "release (tkey t) ?s1 = s\<lparr>timers := filter (\<lambda>x. tid x \<noteq> tid t) (timers s), locks := locks s\<rparr>"
      using None by (simp add: release_def)
    moreover have "wf_core (s\<lparr>timers := filter (\<lambda>x. tid x \<noteq> tid t) (timers s), locks := locks s\<rparr>)"
    proof (rule wf_core_drop[OF wf])
      show "distinct (map tid (filter (\<lambda>x. tid x \<noteq> tid t) (timers s)))"
        using wf by (simp add: wf_core_def distinct_map_filter)
      show "\<forall>e\<in>set (locks s). timer_of s e \<in> set (filter (\<lambda>x. tid x \<noteq> tid t) (timers s))"
        using wf k2 by (auto simp: wf_core_def timer_of_def)
    qed auto
    ultimately show ?thesis by simp
  next
    case (Some info)
    from Some have kin: "(tkey t, info) \<in> set (locks s)" by (rule map_of_SomeD)
    with wf have tk: "timer_of s (tkey t, info) \<in> set (timers s)"
      by (simp add: wf_core_def)
    have keep2: "timer (snd e) \<noteq> timer info" if "e \<in> set (locks s)" "fst e \<noteq> tkey t" for e
      using other_timer[OF wf that(1) tk] that(2) by (simp add: timer_of_def)
    have "release (tkey t) ?s1 =
            s\<lparr>timers := filter (\<lambda>x. tid x \<noteq> timer info) (filter (\<lambda>x. tid x \<noteq> tid t) (timers s)),
              locks := filter (\<lambda>e. fst e \<noteq> tkey t) (locks s)\<rparr>"
      using Some by (simp add: release_def clearTimeout_def)
    moreover have "wf_core (s\<lparr>timers := filter (\<lambda>x. tid x \<noteq> timer info) (filter (\<lambda>x. tid x \<noteq> tid t) (timers s)),
              locks := filter (\<lambda>e. fst e \<noteq> tkey t) (locks s)\<rparr>)"
    proof (rule wf_core_drop[OF wf])
      show "distinct (map tid (filter (\<lambda>x. tid x \<noteq> timer info) (filter (\<lambda>x. tid x \<noteq> tid t) (timers s))))"
        using wf by (simp add: wf_core_def distinct_map_filter)
      show "\<forall>e\<in>set (filter (\<lambda>e. fst e \<noteq> tkey t) (locks s)).
              timer_of s e \<in> set (filter (\<lambda>x. tid x \<noteq> timer info) (filter (\<lambda>x. tid x \<noteq> tid t) (timers s)))"
        using wf keep keep2 by (auto simp: wf_core_def timer_of_def)
    qed auto
    ultimately show ?thesis by simp
  qed
qed

lemma find_None_all: "find P xs = None \<Longrightarrow> \<forall>x\<in>set xs. \<not> P x"
  by (simp add: find_None_iff)

lemma wf_run_due: "wf_core s \<Longrightarrow> wf_lock (run_due s)"
proof (induction s rule: run_due.induct)
  case (1 s)
  show ?case
  proof (cases "find (\<lambda>t. due t \<le> now s) (timers s)")
    case None
    then have "\<forall>t\<in>set (timers s). now s < due t"
      by (auto simp: find_None_iff not_le)
    moreover have "run_due s = s" using None by (subst run_due.simps) simp
    ultimately show ?thesis using "1.prems" by (simp add: wf_lock_def)
  next
    case (Some t)
    then have "t \<in> set (timers s)" by (simp add: find_Some_mem)
    then have "wf_core (release (tkey t) (s\<lparr>timers := filter (\<lambda>x. tid x \<noteq> tid t) (timers s)\<rparr>))"
      using "1.prems" by (rule wf_core_fire[rotated])
    then have "wf_lock (run_due (release (tkey t) (s\<lparr>timers := filter (\<lambda>x. tid x \<noteq> tid t) (timers s)\<rparr>)))"
      using "1.IH"[OF Some] by simp
    moreover have "run_due s = run_due (release (tkey t) (s\<lparr>timers := filter (\<lambda>x. tid x \<noteq> tid t) (timers s)\<rparr>))"
      using Some by (subst run_due.simps) simp
    ultimately show ?thesis by simp
  qed
qed

lemma wf_tick: "wf_lock s \<Longrightarrow> wf_lock (tick d s)"
  unfolding tick_def by (rule wf_run_due) (simp add: wf_lock_def wf_core_def timer_of_def)

lemma wf_step: "wf_lock s \<Longrightarrow> wf_lock (snd (step e s))"
  by (cases e) (simp_all add: wf_acquire wf_release wf_cleanup wf_tick split: prod.splits,
     metis wf_acquire snd_conv)

lemma wf_run: "wf_lock s \<Longrightarrow> wf_lock (run es s)"
  by (induction es arbitrary: s) (simp_all add: wf_step)


lemma sog_refl: "same_or_gone k s s"
  by (simp add: same_or_gone_def)

lemma sog_trans: "same_or_gone k s s1 \<Longrightarrow> same_or_gone k s1 s2 \<Longrightarrow> same_or_gone k s s2"
  by (auto simp: same_or_gone_def)

lemma sog_release: "same_or_gone k s (release k' s)"
  by (auto simp: same_or_gone_def release_def clearTimeout_def map_of_filter_fst split: option.splits)

lemma sog_fire: "same_or_gone k s (release k' (s\<lparr>timers := ts\<rparr>))"
  by (auto simp: same_or_gone_def release_def clearTimeout_def map_of_filter_fst split: option.splits)

lemma sog_now: "same_or_gone k s (s\<lparr>now := n\<rparr>)"
  by (simp add: same_or_gone_def)

lemma sog_acquire: "k' \<noteq> k \<Longrightarrow> same_or_gone k s (snd (acquire k' s))"
  by (auto simp: same_or_gone_def acquire_def setTimeout_def Let_def map_add_def split: option.splits)

lemma sog_cleanup_fold:
  "same_or_gone k s acc \<Longrightarrow>
   same_or_gone k s (foldl (\<lambda>acc e. if n - timestamp (snd e) > timeout acc then release (fst e) acc else acc) acc es)"
proof (induction es arbitrary: acc)
  case Nil
  then show ?case by simp
next
  case (Cons e es)
  have "same_or_gone k s (release (fst e) acc)"
    using Cons.prems sog_release by (rule sog_trans)
  with Cons show ?case by simp
qed

lemma sog_cleanup: "same_or_gone k s (cleanup s)"
  by (simp add: cleanup_def Let_def sog_cleanup_fold sog_refl)

lemma sog_run_due: "same_or_gone k s0 s \<Longrightarrow> same_or_gone k s0 (run_due s)"
proof (induction s rule: run_due.induct)
  case (1 s)
  show ?case
  proof (cases "find (\<lambda>t. due t \<le> now s) (timers s)")
    case None
    then have "run_due s = s" by (subst run_due.simps) simp
    with "1.prems" show ?thesis by simp
  next
    case (Some t)
    let ?s' = "release (tkey t) (s\<lparr>timers := filter (\<lambda>x. tid x \<noteq> tid t) (timers s)\<rparr>)"
    have "same_or_gone k s0 ?s'" using "1.prems" sog_fire by (rule sog_trans)
    then have "same_or_gone k s0 (run_due ?s')" using "1.IH"[OF Some] by simp
    moreover have "run_due s = run_due ?s'" using Some by (subst run_due.simps) simp
    ultimately show ?thesis by simp
  qed
qed

lemma sog_tick: "same_or_gone k s (tick d s)"
  unfolding tick_def by (rule sog_run_due) (rule sog_now)

lemma sog_step: "e \<noteq> Acquire k \<Longrightarrow> same_or_gone k s (snd (step e s))"
proof (cases e)
  case (Acquire k')
  assume "e \<noteq> Acquire k"
  with Acquire have "k' \<noteq> k" by simp
  then have "same_or_gone k s (snd (acquire k' s))" by (rule sog_acquire)
  then show ?thesis using Acquire by (simp split: prod.splits) (metis snd_conv)
qed (simp_all add: sog_release sog_cleanup sog_tick)

lemma sog_run: "\<forall>e\<in>set es. e \<noteq> Acquire k \<Longrightarrow> same_or_gone k s (run es s)"
proof (induction es arbitrary: s)
  case Nil
  then show ?case by (simp add: sog_refl)
next
  case (Cons e es)
  then have "same_or_gone k s (snd (step e s))" by (simp add: sog_step)
  moreover have "same_or_gone k (snd (step e s)) (run es (snd (step e s)))"
    using Cons by simp
  ultimately show ?case by (simp add: sog_trans)
qed

lemma timeout_step: "timeout (snd (step e s)) = timeout s"
proof (cases e)
  case (Acquire k)
  then show ?thesis by (simp add: acquire_def setTimeout_def Let_def split: prod.splits)
next
  case (Release k)
  then show ?thesis by simp
next
  case Cleanup
  then show ?thesis using sog_cleanup[of undefined s] by (simp add: same_or_gone_def)
next
  case (Tick d)
  then show ?thesis using sog_tick[of undefined s d] by (simp add: same_or_gone_def)
qed

lemma timeout_run: "timeout (run es s) = timeout s"
  by (induction es arbitrary: s) (simp_all add: timeout_step)

lemma acquired_entry:
  "\<not> has k s \<Longrightarrow> map_of (locks (snd (acquire k s))) k = Some \<lparr>timestamp = now s, timer = next_timer s\<rparr>"
  by (simp add: acquire_def setTimeout_def Let_def has_def map_add_def)


subsection \<open>Timers belong to held entries\<close>

lemma owned_new: "owned (new_RequestLock t0)"
  by (simp add: owned_def new_RequestLock_def)

lemma free_not_key: "\<not> has k s \<Longrightarrow> k \<notin> fst ` set (locks s)"
  by (simp add: has_def map_of_eq_None_iff)

lemma owned_acquire: "owned s \<Longrightarrow> owned (snd (acquire k s))"
proof (cases "has k s")
  case True
  then show "owned s \<Longrightarrow> ?thesis" by (simp add: acquire_held)
next
  case False
  assume o: "owned s"
  from False have nk: "k \<notin> fst ` set (locks s)" by (rule free_not_key)
  show ?thesis using o nk False
    by (auto simp: owned_def acquire_def setTimeout_def Let_def timer_of_def)
qed

lemma owned_entry:
  assumes o: "owned s" and e: "e \<in> set (locks s)"
  shows "map_of (locks s) (fst e) = Some (snd e)"
proof -
  from o have "distinct (map fst (locks s))" by (simp add: owned_def)
  moreover from e have "(fst e, snd e) \<in> set (locks s)" by simp
  ultimately show ?thesis by (rule map_of_is_SomeI)
qed

lemma owned_release: "owned s \<Longrightarrow> owned (release k s)"
proof (cases "map_of (locks s) k")
  case None
  then show "owned s \<Longrightarrow> ?thesis" by (simp add: release_def)
next
  case (Some lockInfo)
  assume o: "owned s"
  have rel: "release k s = s\<lparr>timers := filter (\<lambda>t. tid t \<noteq> timer lockInfo) (timers s),
                locks := filter (\<lambda>e. fst e \<noteq> k) (locks s)\<rparr>"
    using Some by (simp add: release_def clearTimeout_def)
  have keep: "\<exists>e\<in>set (filter (\<lambda>e. fst e \<noteq> k) (locks s)).
                t = timer_of (release k s) e"
    if t: "t \<in> set (timers s)" and ne: "tid t \<noteq> timer lockInfo" for t
  proof -
    from o t obtain e where e: "e \<in> set (locks s)" and te: "t = timer_of s e"
      by (auto simp: owned_def)
    have "fst e \<noteq> k"
    proof
      assume "fst e = k"
      with owned_entry[OF o e] Some have "snd e = lockInfo" by simp
      with te ne show False by (simp add: timer_of_def)
    qed
    with e have "e \<in> set (filter (\<lambda>e. fst e \<noteq> k) (locks s))" by simp
    moreover have "t = timer_of (release k s) e" using te by (simp add: timer_of_def rel)
    ultimately show ?thesis by blast
  qed
  have d: "distinct (map fst (filter (\<lambda>e. fst e \<noteq> k) (locks s)))"
    using o by (simp add: owned_def distinct_map_filter)
  show ?thesis unfolding owned_def using d keep by (auto simp: rel)
qed

lemma owned_fewer_timers:
  "owned s \<Longrightarrow> owned (s\<lparr>timers := filter P (timers s)\<rparr>)"
  by (auto simp: owned_def timer_of_def)

lemma owned_fire:
  "owned s \<Longrightarrow> owned (release k (s\<lparr>timers := filter P (timers s)\<rparr>))"
  by (intro owned_release owned_fewer_timers)

lemma owned_now: "owned s \<Longrightarrow> owned (s\<lparr>now := n\<rparr>)"
  by (simp add: owned_def timer_of_def)

lemma owned_run_due: "owned s \<Longrightarrow> owned (run_due s)"
proof (induction s rule: run_due.induct)
  case (1 s)
  show ?case
  proof (cases "find (\<lambda>t. due t \<le> now s) (timers s)")
    case None
    then have "run_due s = s" by (subst run_due.simps) simp
    with "1.prems" show ?thesis by simp
  next
    case (Some t)
    let ?s' = "release (tkey t) (s\<lparr>timers := filter (\<lambda>x. tid x \<noteq> tid t) (timers s)\<rparr>)"
    have "owned ?s'" using "1.prems" by (rule owned_fire)
    then have "owned (run_due ?s')" using "1.IH"[OF Some] by simp
    moreover have "run_due s = run_due ?s'" using Some by (subst run_due.simps) simp
    ultimately show ?thesis by simp
  qed
qed

lemma cleanup_fold_noop:
  "\<forall>e\<in>set es. \<not> n - timestamp (snd e) > timeout acc \<Longrightarrow>
   foldl (\<lambda>acc e. if n - timestamp (snd e) > timeout acc then release (fst e) acc else acc) acc es
     = acc"
  by (induction es arbitrary: acc) simp_all

lemma cleanup_fresh: "fresh s \<Longrightarrow> cleanup s = s"
  unfolding cleanup_def Let_def
  by (rule cleanup_fold_noop) (auto simp: fresh_def)

lemma owned_step: "wf_lock s \<Longrightarrow> owned s \<Longrightarrow> owned (snd (step e s))"
proof (cases e)
  case (Acquire k)
  assume "owned s"
  then have "owned (snd (acquire k s))" by (rule owned_acquire)
  then show ?thesis using Acquire by (simp add: case_prod_beta)
next
  case (Release k)
  assume "owned s"
  then show ?thesis using Release by (simp add: owned_release)
next
  case Cleanup
  assume "wf_lock s" "owned s"
  then show ?thesis using Cleanup by (simp add: cleanup_fresh wf_fresh)
next
  case (Tick d)
  assume "owned s"
  then show ?thesis using Tick by (simp add: tick_def owned_run_due owned_now)
qed

lemma owned_run: "wf_lock s \<Longrightarrow> owned s \<Longrightarrow> owned (run es s)"
  by (induction es arbitrary: s) (simp_all add: owned_step wf_step)

subsection \<open>A hold lasts until it is released or its window ends\<close>

lemma now_run_due [simp]: "now (run_due s) = now s"
proof (induction s rule: run_due.induct)
  case (1 s)
  show ?case
  proof (cases "find (\<lambda>t. due t \<le> now s) (timers s)")
    case None
    then show ?thesis by (subst run_due.simps) simp
  next
    case (Some t)
    let ?s' = "release (tkey t) (s\<lparr>timers := filter (\<lambda>x. tid x \<noteq> tid t) (timers s)\<rparr>)"
    have "run_due s = run_due ?s'" using Some by (subst run_due.simps) simp
    with "1.IH"[OF Some] show ?thesis by simp
  qed
qed

lemma now_acquire [simp]: "now (snd (acquire k s)) = now s"
  by (simp add: acquire_def setTimeout_def Let_def)

lemma now_step: "fresh s \<Longrightarrow> now (snd (step e s)) = now s + dur e"
  by (cases e) (simp_all add: case_prod_beta cleanup_fresh tick_def)

lemma held_release: "k' \<noteq> k \<Longrightarrow> held_since k T (release k' s) = held_since k T s"
  by (simp add: held_since_def release_def clearTimeout_def map_of_filter_fst
      split: option.splits)

lemma held_acquire: "held_since k T s \<Longrightarrow> held_since k T (snd (acquire k' s))"
  by (auto simp: held_since_def acquire_def setTimeout_def Let_def has_def map_add_def
      split: option.splits)

lemma held_has: "held_since k T s \<Longrightarrow> has k s"
  by (auto simp: held_since_def has_def split: option.splits)

lemma held_run_due:
  "owned s \<Longrightarrow> held_since k T s \<Longrightarrow> now s < T + timeout s \<Longrightarrow> held_since k T (run_due s)"
proof (induction s rule: run_due.induct)
  case (1 s)
  show ?case
  proof (cases "find (\<lambda>t. due t \<le> now s) (timers s)")
    case None
    then have "run_due s = s" by (subst run_due.simps) simp
    with "1.prems" show ?thesis by simp
  next
    case (Some t)
    let ?s' = "release (tkey t) (s\<lparr>timers := filter (\<lambda>x. tid x \<noteq> tid t) (timers s)\<rparr>)"
    from find_Some_mem[OF Some] have tin: "t \<in> set (timers s)" and td: "due t \<le> now s"
      by simp_all
    from "1.prems"(1) tin obtain e where e: "e \<in> set (locks s)" and te: "t = timer_of s e"
      by (auto simp: owned_def)
    have nk: "tkey t \<noteq> k"
    proof
      assume "tkey t = k"
      with te have "fst e = k" by (simp add: timer_of_def)
      with owned_entry[OF "1.prems"(1) e] "1.prems"(2) have "timestamp (snd e) = T"
        by (simp add: held_since_def)
      with te have "due t = T + timeout s" by (simp add: timer_of_def)
      with td "1.prems"(3) show False by simp
    qed
    have h: "held_since k T ?s'"
      using "1.prems"(2) nk by (simp add: held_release) (simp add: held_since_def)
    have o: "owned ?s'" using "1.prems"(1) by (rule owned_fire)
    have "held_since k T (run_due ?s')"
      using "1.IH"[OF Some o h] "1.prems"(3) by simp
    moreover have "run_due s = run_due ?s'" using Some by (subst run_due.simps) simp
    ultimately show ?thesis by simp
  qed
qed

lemma held_step:
  assumes wf: "wf_lock s" and o: "owned s" and h: "held_since k T s"
    and e: "e \<noteq> Release k" and t: "now s + dur e < T + timeout s"
  shows "held_since k T (snd (step e s))"
proof (cases e)
  case (Acquire k')
  then show ?thesis using held_acquire[OF h, of k'] by (simp add: case_prod_beta)
next
  case (Release k')
  with e have "k' \<noteq> k" by simp
  then show ?thesis using Release h by (simp add: held_release)
next
  case Cleanup
  then show ?thesis using h wf by (simp add: cleanup_fresh wf_fresh)
next
  case (Tick d)
  have "held_since k T (run_due (s\<lparr>now := now s + d\<rparr>))"
  proof (rule held_run_due)
    show "owned (s\<lparr>now := now s + d\<rparr>)" using o by (rule owned_now)
    show "held_since k T (s\<lparr>now := now s + d\<rparr>)" using h by (simp add: held_since_def)
    show "now (s\<lparr>now := now s + d\<rparr>) < T + timeout (s\<lparr>now := now s + d\<rparr>)"
      using t Tick by simp
  qed
  then show ?thesis using Tick by (simp add: tick_def)
qed

lemma held_results_timed:
  "wf_lock s \<Longrightarrow> owned s \<Longrightarrow> held_since k T s \<Longrightarrow> \<forall>e\<in>set es. e \<noteq> Release k \<Longrightarrow>
   now s + elapsed es < T + timeout s \<Longrightarrow>
   acquire_results k es s = replicate (count_list es (Acquire k)) False"
proof (induction es arbitrary: s)
  case Nil
  then show ?case by simp
next
  case (Cons e es)
  let ?s' = "snd (step e s)"
  have wf': "wf_lock ?s'" using Cons.prems(1) by (rule wf_step)
  have o': "owned ?s'" using Cons.prems(1,2) by (rule owned_step)
  have h': "held_since k T ?s'"
    using Cons.prems by (intro held_step) simp_all
  have n': "now ?s' = now s + dur e" using Cons.prems(1) by (simp add: now_step wf_fresh)
  have t': "timeout ?s' = timeout s" by (rule timeout_step)
  have rest: "acquire_results k es ?s' = replicate (count_list es (Acquire k)) False"
    using Cons.IH[OF wf' o' h'] Cons.prems(4,5) n' t' by simp
  show ?case
  proof (cases e)
    case (Acquire k')
    show ?thesis
    proof (cases "k' = k")
      case True
      have "acquire k s = (False, s)" using Cons.prems(3) by (simp add: acquire_held held_has)
      with Acquire True rest show ?thesis by simp
    next
      case False
      with Acquire rest show ?thesis by (simp add: case_prod_beta)
    qed
  qed (use rest in simp_all)
qed

section \<open>Registration lock: claims\<close>

text \<open>
  Claim C7. \<^verbatim>\<open>acquire(k)\<close> answers false and changes nothing when \<open>k\<close> is held;
  otherwise it answers true and \<open>k\<close> is held afterwards. In a lock that has been used
  in any way since it was created, once \<^verbatim>\<open>acquire(k)\<close> has answered true, every
  further \<^verbatim>\<open>acquire(k)\<close> answers false for as long as \<open>k\<close> is not released
  and less than the 5000 ms window has passed, whatever else happens meanwhile (other
  keys acquired and released, time passing, timers of other entries firing, sweeps).
  With no time passing at all the same holds from any state, and then the first call
  answers true exactly when \<open>k\<close> was free. \<^verbatim>\<open>release(k)\<close> is idempotent, and a
  no-op on a key that is not held.
\<close>

theorem acquire_exclusive:
  "fst (acquire k s) = (\<not> has k s) \<and>
   (has k s \<longrightarrow> snd (acquire k s) = s) \<and>
   has k (snd (acquire k s)) \<and>
   ((\<forall>e\<in>set es. keeps k e) \<longrightarrow>
      acquire_results k (Acquire k # es) s
        = (\<not> has k s) # replicate (count_list es (Acquire k)) False) \<and>
   (s = run evs (new_RequestLock t0) \<and> \<not> has k s \<and>
    (\<forall>e\<in>set es'. e \<noteq> Release k) \<and> elapsed es' < 5000 \<longrightarrow>
      acquire_results k (Acquire k # es') s
        = True # replicate (count_list es' (Acquire k)) False) \<and>
   release k (release k s) = release k s \<and>
   (\<not> has k s \<longrightarrow> release k s = s)"
proof -
  have a: "fst (acquire k s) = (\<not> has k s)"
    using acquire_free[of k s] by (auto simp: acquire_held)
  have b: "has k (snd (acquire k s))"
    using acquire_free[of k s] acquire_held[of k s] by (cases "has k s") simp_all
  have c: "acquire_results k (Acquire k # es) s
        = (\<not> has k s) # replicate (count_list es (Acquire k)) False"
    if "\<forall>e\<in>set es. keeps k e"
    using held_results[OF b that] a by (simp split: prod.splits) (metis fst_conv snd_conv)
  have d: "acquire_results k (Acquire k # es') s
        = True # replicate (count_list es' (Acquire k)) False"
    if reach: "s = run evs (new_RequestLock t0)" and free: "\<not> has k s"
      and nr: "\<forall>e\<in>set es'. e \<noteq> Release k" and short: "elapsed es' < 5000"
  proof -
    let ?s1 = "snd (acquire k s)"
    have wf: "wf_lock s" unfolding reach by (rule wf_run) (rule wf_new)
    have ow: "owned s" unfolding reach by (rule owned_run) (rule wf_new, rule owned_new)
    have to: "timeout s = 5000" unfolding reach by (simp add: timeout_run new_RequestLock_def)
    have wf1: "wf_lock ?s1" using wf by (rule wf_acquire)
    have ow1: "owned ?s1" using ow by (rule owned_acquire)
    have h1: "held_since k (now s) ?s1"
      using acquired_entry[OF free] by (simp add: held_since_def)
    have to1: "timeout ?s1 = 5000"
      using to free by (simp add: acquire_def setTimeout_def Let_def)
    have "acquire_results k es' ?s1 = replicate (count_list es' (Acquire k)) False"
      using wf1 ow1 h1 nr by (rule held_results_timed) (simp add: to1 short)
    then show ?thesis using a free by (simp add: case_prod_beta)
  qed
  have e: "has k s \<longrightarrow> snd (acquire k s) = s" by (simp add: acquire_held)
  show ?thesis using a b c d e release_idem[of k s] release_unheld[of k s] by blast
qed

theorem acquire_exclusive_witness:
  "acquire ''alice'' (new_RequestLock 0)
     = (True, \<lparr>locks = [(''alice'', \<lparr>timestamp = 0, timer = 0\<rparr>)], timeout = 5000,
               timers = [\<lparr>tid = 0, tkey = ''alice'', due = 5000\<rparr>], next_timer = 1, now = 0\<rparr>) \<and>
   acquire_results ''alice''
      [Acquire ''alice'', Acquire ''alice'', Acquire ''bob'', Release ''bob'', Acquire ''alice'']
      (new_RequestLock 0) = [True, False, False] \<and>
   acquire_results ''alice''
      [Acquire ''alice'', Tick 2000, Acquire ''alice'', Cleanup, Acquire ''bob'', Tick 2999,
       Acquire ''alice'']
      (run [Acquire ''alice'', Tick 3000, Release ''alice''] (new_RequestLock 0))
     = [True, False, False] \<and>
   fst (acquire ''alice'' (snd (acquire ''alice'' (new_RequestLock 0)))) = False \<and>
   snd (acquire ''alice'' (snd (acquire ''alice'' (new_RequestLock 0))))
     = snd (acquire ''alice'' (new_RequestLock 0)) \<and>
   release ''alice'' (new_RequestLock 0) = new_RequestLock 0 \<and>
   fst (acquire ''alice'' (release ''alice'' (snd (acquire ''alice'' (new_RequestLock 0)))))"
proof -
  let ?s0 = "new_RequestLock 0"
  let ?s1 = "snd (acquire ''alice'' ?s0)"
  let ?s2 = "run [Acquire ''alice'', Tick 3000, Release ''alice''] ?s0"
  let ?es = "[Tick 2000, Acquire ''alice'', Cleanup, Acquire ''bob'', Tick 2999,
              Acquire ''alice'']"
  have free: "\<not> has ''alice'' ?s0" by (simp add: has_def new_RequestLock_def)
  have held: "has ''alice'' ?s1"
    by (simp add: has_def new_RequestLock_def acquire_def setTimeout_def)
  have free2: "\<not> has ''alice'' (release ''alice'' ?s1)"
    by (simp add: has_def new_RequestLock_def acquire_def setTimeout_def release_def clearTimeout_def)
  have free3: "\<not> has ''alice'' ?s2"
    by (simp add: has_def new_RequestLock_def acquire_def setTimeout_def release_def
        clearTimeout_def tick_def run_due.simps)
  have ks: "\<forall>e\<in>set [Acquire ''alice'', Acquire ''bob'', Release ''bob'', Acquire ''alice''].
              keeps ''alice'' e" by simp
  have nr: "\<forall>e\<in>set ?es. e \<noteq> Release ''alice''" by simp
  have el: "elapsed ?es < 5000" by simp
  note t0 = acquire_exclusive[of "''alice''" ?s0
      "[Acquire ''alice'', Acquire ''bob'', Release ''bob'', Acquire ''alice'']" "[]" 0 "[]"]
  note t1 = acquire_exclusive[of "''alice''" ?s1 "[]" "[]" 0 "[]"]
  note t2 = acquire_exclusive[of "''alice''" "release ''alice'' ?s1" "[]" "[]" 0 "[]"]
  note t3 = acquire_exclusive[of "''alice''" ?s2 "[]"
      "[Acquire ''alice'', Tick 3000, Release ''alice'']" 0 ?es]
  have r: "acquire_results ''alice''
      [Acquire ''alice'', Acquire ''alice'', Acquire ''bob'', Release ''bob'', Acquire ''alice'']
      ?s0 = [True, False, False]"
    using t0 free ks by (simp del: acquire_results.simps add: numeral_2_eq_2)
  have r3: "acquire_results ''alice'' (Acquire ''alice'' # ?es) ?s2 = [True, False, False]"
    using t3 free3 nr el by (simp del: acquire_results.simps run.simps add: numeral_2_eq_2)
  have v: "acquire ''alice'' ?s0
     = (True, \<lparr>locks = [(''alice'', \<lparr>timestamp = 0, timer = 0\<rparr>)], timeout = 5000,
               timers = [\<lparr>tid = 0, tkey = ''alice'', due = 5000\<rparr>], next_timer = 1, now = 0\<rparr>)"
    by (simp add: has_def new_RequestLock_def acquire_def setTimeout_def)
  show ?thesis using r r3 v t0 t1 t2 free held free2 by simp
qed

text \<open>
  Claim C8. In every state reachable from a new lock, no held entry is older than the
  5000 ms window. So when \<^verbatim>\<open>acquire(k)\<close> has succeeded and at least 5000 ms have
  passed since, \<^verbatim>\<open>acquire(k)\<close> succeeds again, whatever else happened in between
  (other keys acquired, sweeps, releases or none), as long as nobody else acquired
  \<open>k\<close> meanwhile. Time passes only through \<open>tick\<close>, where the event loop runs
  every timer that has become due.
\<close>

theorem lock_auto_release:
  assumes reach: "s = run evs (new_RequestLock t0)"
    and acq: "fst (acquire k s)"
    and others: "\<forall>e\<in>set es. e \<noteq> Acquire k"
    and late: "now s + 5000 \<le> now (run es (snd (acquire k s)))"
  shows "fresh s \<and> fst (acquire k (run es (snd (acquire k s))))"
proof -
  let ?s1 = "snd (acquire k s)" and ?s2 = "run es (snd (acquire k s))"
  have wf: "wf_lock s" unfolding reach by (rule wf_run) (rule wf_new)
  have to: "timeout s = 5000" unfolding reach by (simp add: timeout_run new_RequestLock_def)
  from acq have free: "\<not> has k s" by (auto simp: acquire_def)
  have wf2: "wf_lock ?s2" using wf by (intro wf_run wf_acquire)
  then have fr2: "fresh ?s2" by (rule wf_fresh)
  have sog: "same_or_gone k ?s1 ?s2" using others by (rule sog_run)
  have "\<not> has k ?s2"
  proof
    assume "has k ?s2"
    with sog have e: "map_of (locks ?s2) k = Some \<lparr>timestamp = now s, timer = next_timer s\<rparr>"
      using acquired_entry[OF free] by (auto simp: same_or_gone_def has_def)
    then have "(k, \<lparr>timestamp = now s, timer = next_timer s\<rparr>) \<in> set (locks ?s2)"
      by (rule map_of_SomeD)
    with fr2 have "now ?s2 < now s + timeout ?s2" by (fastforce simp: fresh_def)
    moreover have "timeout ?s2 = 5000" using sog to
      by (simp add: same_or_gone_def acquire_def setTimeout_def Let_def free)
    ultimately show False using late by simp
  qed
  then have "fst (acquire k ?s2)" by (simp add: acquire_free)
  with wf show ?thesis by (simp add: wf_fresh)
qed

theorem lock_auto_release_witness:
  "fresh (run [Acquire ''bob''] (new_RequestLock 0)) \<and>
   fst (acquire ''alice'' (run [Acquire ''bob''] (new_RequestLock 0))) \<and>
   fst (acquire ''alice''
     (run [Acquire ''bob'', Tick 5000]
        (snd (acquire ''alice'' (run [Acquire ''bob''] (new_RequestLock 0))))))"
  using lock_auto_release[of "run [Acquire ''bob''] (new_RequestLock 0)" "[Acquire ''bob'']" 0
      "''alice''" "[Acquire ''bob'', Tick 5000]"]
  by (simp add: acquire_def setTimeout_def has_def new_RequestLock_def tick_def run_due.simps
      release_def clearTimeout_def)

section \<open>What bcrypt sees of a token\<close>

lemma base64url_take:
  "3 * n \<le> length xs \<Longrightarrow> take (4 * n) (base64url xs) = base64url (take (3 * n) xs)"
proof (induction n arbitrary: xs)
  case 0
  then show ?case by simp
next
  case (Suc n)
  then obtain a b c ys where xs: "xs = a # b # c # ys"
    by (cases xs; cases "tl xs"; cases "tl (tl xs)") auto
  with Suc.prems have "3 * n \<le> length ys" by simp
  then have ih: "take (4 * n) (base64url ys) = base64url (take (3 * n) ys)" by (rule Suc.IH)
  have four: "4 * Suc n = Suc (Suc (Suc (Suc (4 * n))))"
    and three: "3 * Suc n = Suc (Suc (Suc (3 * n)))" by simp_all
  have "take (4 * Suc n) (base64url xs)
          = take 4 (base64url [a, b, c]) @ take (4 * n) (base64url ys)"
    unfolding xs four by (simp add: Let_def)
  also have "\<dots> = base64url [a, b, c] @ base64url (take (3 * n) ys)"
    by (simp add: ih Let_def)
  also have "\<dots> = base64url (take (3 * Suc n) xs)"
    unfolding xs three by (simp add: Let_def)
  finally show ?case .
qed

lemma base64url_length:
  "length xs = 3 * n \<Longrightarrow> length (base64url xs) = 4 * n"
proof (induction n arbitrary: xs)
  case 0
  then show ?case by simp
next
  case (Suc n)
  then obtain a b c ys where xs: "xs = a # b # c # ys"
    by (cases xs; cases "tl xs"; cases "tl (tl xs)") auto
  with Suc show ?case by (simp add: Let_def)
qed

lemma header_length: "length (base64url jwt_header_json) = 36"
proof -
  have "length jwt_header_json = 3 * 9" by (simp add: jwt_header_json_def)
  then have "length (base64url jwt_header_json) = 4 * 9" by (rule base64url_length)
  then show ?thesis by simp
qed

text \<open>The first 35 characters of the encoding are settled by the first 27 bytes.\<close>

lemma base64url_prefix:
  assumes "27 \<le> length xs" "27 \<le> length ys" "take 27 xs = take 27 ys"
  shows "take 35 (base64url xs) = take 35 (base64url ys)"
    and "35 \<le> length (base64url xs)"
proof -
  have a: "take 36 (base64url zs) = base64url (take 27 zs)" if "27 \<le> length zs" for zs
    using base64url_take[of 9 zs] that by simp
  have p: "take 35 (base64url zs) = take 35 (base64url (take 27 zs))"
    if "27 \<le> length zs" for zs
  proof -
    have "take 35 (base64url zs) = take 35 (take 36 (base64url zs))"
      by (simp only: take_take) simp
    also have "\<dots> = take 35 (base64url (take 27 zs))" by (simp only: a[OF that])
    finally show ?thesis .
  qed
  have "take 35 (base64url xs) = take 35 (base64url (take 27 xs))" by (rule p[OF assms(1)])
  also have "\<dots> = take 35 (base64url (take 27 ys))" by (simp only: assms(3))
  also have "\<dots> = take 35 (base64url ys)" by (rule p[OF assms(2), symmetric])
  finally show "take 35 (base64url xs) = take 35 (base64url ys)" .
  have "length (base64url (take 27 xs)) = 36"
    using base64url_length[of "take 27 xs" 9] assms(1) by simp
  then have "length (take 36 (base64url xs)) = 36" by (simp only: a[OF assms(1)])
  then show "35 \<le> length (base64url xs)" by simp
qed

lemma show_nat_nonempty: "show_nat n \<noteq> []"
  by (subst show_nat.simps) simp

lemma payload_head_length: "27 \<le> length (payload_head n uid)"
proof -
  have "1 \<le> length (show_nat n)" using show_nat_nonempty[of n] by (cases "show_nat n") simp_all
  then show ?thesis by (simp add: payload_head_def)
qed

lemma json_payload_head:
  "c_id p = Some n \<Longrightarrow> \<exists>rest. json_payload p i e = payload_head n (c_userid p) @ rest"
  by (simp add: json_payload_def payload_head_def)

lemma json_payload_take:
  assumes "c_id p = Some n"
  shows "take 27 (json_payload p i e) = take 27 (payload_head n (c_userid p))"
    and "27 \<le> length (json_payload p i e)"
proof -
  from json_payload_head[OF assms] obtain rest
    where r: "json_payload p i e = payload_head n (c_userid p) @ rest" by blast
  show "take 27 (json_payload p i e) = take 27 (payload_head n (c_userid p))"
    unfolding r using payload_head_length[of n "c_userid p"] by simp
  show "27 \<le> length (json_payload p i e)"
    unfolding r using payload_head_length[of n "c_userid p"] by simp
qed

lemma compact_take:
  assumes "c_id p = Some n"
  shows "take 72 (compact ev (Jwt p i e k))
           = base64url jwt_header_json @ ''.''
             @ take 35 (base64url (take 27 (payload_head n (c_userid p))))"
proof -
  let ?b = "base64url (json_payload p i e)"
  have l: "35 \<le> length ?b"
    using base64url_prefix(2)[of "json_payload p i e" "json_payload p i e"]
      json_payload_take(2)[OF assms] by simp
  have "27 \<le> length (take 27 (payload_head n (c_userid p)))"
    using payload_head_length[of n "c_userid p"] by simp
  then have "take 35 ?b = take 35 (base64url (take 27 (payload_head n (c_userid p))))"
    using base64url_prefix(1)[of "json_payload p i e" "take 27 (payload_head n (c_userid p))"]
      json_payload_take[OF assms, of i e] by simp
  then show ?thesis using l header_length
    by (simp add: compact_def Let_def)
qed

text \<open>
  So bcrypt cannot tell apart two tokens signed for the same id and user id: whatever
  the digest, each matches the hash of the other.
\<close>

lemma bcrypt_same_user:
  "c_id p = Some n \<Longrightarrow> c_id p' = Some n \<Longrightarrow> c_userid p' = c_userid p \<Longrightarrow>
   bcrypt_compare ev (Jwt p i e k) (bcrypt_hash ev slt (Jwt p' i' e' k'))"
  by (simp add: bcrypt_compare_def bcrypt_hash_def compact_take)

lemma bcrypt_compare_self [simp]: "bcrypt_compare ev tok (bcrypt_hash ev slt tok)"
  by (simp add: bcrypt_compare_def bcrypt_hash_def)

section \<open>The access-token guard: proofs\<close>

lemma jwt_verify_cases:
  "jwt_verify tok sec t =
     (if \<not> signature_valid sec tok then Inl JsonWebTokenError
      else if ttl_passed tok t then Inl TokenExpiredError
      else (case tok of Jwt p i e k \<Rightarrow> Inr \<lparr>payload = p, iat = i, exp = e\<rparr> | Raw s \<Rightarrow> Inl JsonWebTokenError))"
  by (cases tok) (auto simp: signature_valid_def ttl_passed_def)

text \<open>
  Claim C4. The guard answers 401 with no \<^verbatim>\<open>expired\<close> flag when no token is
  presented; 401 with \<^verbatim>\<open>expired: true\<close> when the presented token has a valid
  signature and its lifetime has passed; 403 when the presented token is invalid in any
  other way (malformed, or signed with another secret); and lets the request through
  otherwise. The three failure answers differ in status or flag.
\<close>

theorem verifyToken_failures:
  "(\<not> truthy (extractToken req accessToken) \<longrightarrow>
      verifyToken ev req t = Respond (reply 401 False TokenRequired)) \<and>
   (truthy (extractToken req accessToken) \<and> extractToken req accessToken = Some tok \<and>
    signature_valid (ACCESS_TOKEN_SECRET ev) tok \<and> ttl_passed tok t \<longrightarrow>
      verifyToken ev req t = Respond ((reply 401 False TokenExpired)\<lparr>expired := Some True\<rparr>)) \<and>
   (truthy (extractToken req accessToken) \<and> extractToken req accessToken = Some tok \<and>
    \<not> signature_valid (ACCESS_TOKEN_SECRET ev) tok \<longrightarrow>
      verifyToken ev req t = Respond (reply 403 False TokenInvalid)) \<and>
   (truthy (extractToken req accessToken) \<and> extractToken req accessToken = Some tok \<and>
    signature_valid (ACCESS_TOKEN_SECRET ev) tok \<and> \<not> ttl_passed tok t \<longrightarrow>
      (\<exists>dec. verifyToken ev req t = Next (req\<lparr>user := Some dec\<rparr>))) \<and>
   status (reply 401 False TokenRequired) = 401 \<and>
   expired (reply 401 False TokenRequired) = None \<and>
   status ((reply 401 False TokenExpired)\<lparr>expired := Some True\<rparr>) = 401 \<and>
   expired ((reply 401 False TokenExpired)\<lparr>expired := Some True\<rparr>) = Some True \<and>
   status (reply 403 False TokenInvalid) = 403 \<and>
   expired (reply 403 False TokenInvalid) = None"
proof -
  have none: "verifyToken ev req t = Respond (reply 401 False TokenRequired)"
    if "\<not> truthy (extractToken req accessToken)"
    using that by (auto simp: verifyToken_def truthy_def split: option.splits)
  have pres: "verifyToken ev req t =
      (case jwt_verify tok (ACCESS_TOKEN_SECRET ev) t of
         Inr dec \<Rightarrow> Next (req\<lparr>user := Some dec\<rparr>)
       | Inl e \<Rightarrow> if e = TokenExpiredError
                  then Respond ((reply 401 False TokenExpired)\<lparr>expired := Some True\<rparr>)
                  else Respond (reply 403 False TokenInvalid))"
    if "truthy (extractToken req accessToken)" "extractToken req accessToken = Some tok"
    using that by (simp add: verifyToken_def truthy_def)
  have c2: "verifyToken ev req t = Respond ((reply 401 False TokenExpired)\<lparr>expired := Some True\<rparr>)"
    if "truthy (extractToken req accessToken)" "extractToken req accessToken = Some tok"
       "signature_valid (ACCESS_TOKEN_SECRET ev) tok" "ttl_passed tok t"
    using that pres by (simp add: jwt_verify_cases)
  have c3: "verifyToken ev req t = Respond (reply 403 False TokenInvalid)"
    if "truthy (extractToken req accessToken)" "extractToken req accessToken = Some tok"
       "\<not> signature_valid (ACCESS_TOKEN_SECRET ev) tok"
    using that pres by (simp add: jwt_verify_cases)
  have c4: "\<exists>dec. verifyToken ev req t = Next (req\<lparr>user := Some dec\<rparr>)"
    if "truthy (extractToken req accessToken)" "extractToken req accessToken = Some tok"
       "signature_valid (ACCESS_TOKEN_SECRET ev) tok" "\<not> ttl_passed tok t"
  proof (cases tok)
    case (Raw s)
    with that show ?thesis by (simp add: signature_valid_def)
  next
    case (Jwt p i e k)
    with that pres have "verifyToken ev req t = Next (req\<lparr>user := Some \<lparr>payload = p, iat = i, exp = e\<rparr>\<rparr>)"
      by (simp add: jwt_verify_cases)
    then show ?thesis by blast
  qed
  have vals: "status (reply 401 False TokenRequired) = 401 \<and>
   expired (reply 401 False TokenRequired) = None \<and>
   status ((reply 401 False TokenExpired)\<lparr>expired := Some True\<rparr>) = 401 \<and>
   expired ((reply 401 False TokenExpired)\<lparr>expired := Some True\<rparr>) = Some True \<and>
   status (reply 403 False TokenInvalid) = 403 \<and>
   expired (reply 403 False TokenInvalid) = None"
    by (simp add: reply_def)
  show ?thesis using none c2 c3 c4 vals by blast
qed

theorem verifyToken_failures_witness:
  "verifyToken env0 \<lparr>authorization = NoHeader, body = (\<lambda>_. None), cookies = (\<lambda>_. None), user = None\<rparr> 0
     = Respond (reply 401 False TokenRequired) \<and>
   verifyToken env0 (bearer (Jwt alice 0 3600 ''a-secret'')) 3600000
     = Respond ((reply 401 False TokenExpired)\<lparr>expired := Some True\<rparr>) \<and>
   verifyToken env0 (bearer (Jwt alice 0 3600 ''forged'')) 5000
     = Respond (reply 403 False TokenInvalid) \<and>
   verifyToken env0 (bearer (Raw ''garbage'')) 5000
     = Respond (reply 403 False TokenInvalid) \<and>
   (\<exists>dec. verifyToken env0 (bearer (Jwt alice 0 3600 ''a-secret'')) 3599999
     = Next ((bearer (Jwt alice 0 3600 ''a-secret''))\<lparr>user := Some dec\<rparr>))"
proof -
  let ?none = "\<lparr>authorization = NoHeader, body = (\<lambda>_. None), cookies = (\<lambda>_. None), user = None\<rparr>"
  let ?good = "Jwt alice 0 3600 ''a-secret''"
  have a: "\<not> truthy (extractToken ?none accessToken)"
    by (simp add: extractToken_def truthy_def)
  have b: "truthy (extractToken (bearer tok) accessToken) \<and>
           extractToken (bearer tok) accessToken = Some tok" if "tok \<noteq> Raw []" for tok
    using that by (simp add: extractToken_def truthy_def bearer_def)
  have s1: "signature_valid (ACCESS_TOKEN_SECRET env0) ?good"
    and s2: "\<not> signature_valid (ACCESS_TOKEN_SECRET env0) (Jwt alice 0 3600 ''forged'')"
    and s3: "\<not> signature_valid (ACCESS_TOKEN_SECRET env0) (Raw ''garbage'')"
    by (simp_all add: signature_valid_def env0_def usable_def)
  have p1: "ttl_passed ?good 3600000" and p2: "\<not> ttl_passed ?good 3599999"
    by (simp_all add: ttl_passed_def)
  have w1: "verifyToken env0 ?none 0 = Respond (reply 401 False TokenRequired)"
    using verifyToken_failures[of ?none env0 0 "Raw []"] a by blast
  have w2: "verifyToken env0 (bearer ?good) 3600000
              = Respond ((reply 401 False TokenExpired)\<lparr>expired := Some True\<rparr>)"
    using verifyToken_failures[of "bearer ?good" env0 3600000 ?good] b[of ?good] s1 p1 by blast
  have w3: "verifyToken env0 (bearer (Jwt alice 0 3600 ''forged'')) 5000
              = Respond (reply 403 False TokenInvalid)"
    using verifyToken_failures[of "bearer (Jwt alice 0 3600 ''forged'')" env0 5000
        "Jwt alice 0 3600 ''forged''"] b[of "Jwt alice 0 3600 ''forged''"] s2 by blast
  have w4: "verifyToken env0 (bearer (Raw ''garbage'')) 5000
              = Respond (reply 403 False TokenInvalid)"
    using verifyToken_failures[of "bearer (Raw ''garbage'')" env0 5000 "Raw ''garbage''"]
      b[of "Raw ''garbage''"] s3 by blast
  have w5: "\<exists>dec. verifyToken env0 (bearer ?good) 3599999
              = Next ((bearer ?good)\<lparr>user := Some dec\<rparr>)"
    using verifyToken_failures[of "bearer ?good" env0 3599999 ?good] b[of ?good] s1 p2 by blast
  show ?thesis using w1 w2 w3 w4 w5 by blast
qed

text \<open>
  Claim C9. With the access secret configured, an access token is issued for any claims;
  presented to the guard before \<^verbatim>\<open>exp\<close>, it is accepted and the payload the
  guard puts in \<^verbatim>\<open>req.user\<close> is the claims that were signed.
\<close>

theorem access_round_trip:
  "(usable (ACCESS_TOKEN_SECRET ev) \<longrightarrow> (\<exists>tok. generateAccessToken ev p t0 = Inr tok)) \<and>
   (generateAccessToken ev p t0 = Inr tok \<and> extractToken req accessToken = Some tok \<and>
    t1 div 1000 < t0 div 1000 + ACCESS_TOKEN_EXPIRES_IN ev \<longrightarrow>
      (\<exists>dec. verifyToken ev req t1 = Next (req\<lparr>user := Some dec\<rparr>) \<and> payload dec = p))"
  by (auto simp: generateAccessToken_def jwt_sign_def usable_def verifyToken_def
      split: option.splits if_splits)

theorem access_round_trip_witness:
  "generateAccessToken env0 alice 1000 = Inr (Jwt alice 1 3601 ''a-secret'') \<and>
   (\<exists>dec. verifyToken env0 (bearer (Jwt alice 1 3601 ''a-secret'')) 3600999
      = Next ((bearer (Jwt alice 1 3601 ''a-secret''))\<lparr>user := Some dec\<rparr>) \<and> payload dec = alice)"
proof -
  have g: "generateAccessToken env0 alice 1000 = Inr (Jwt alice 1 3601 ''a-secret'')"
    by (simp add: generateAccessToken_def jwt_sign_def env0_def)
  have e: "extractToken (bearer (Jwt alice 1 3601 ''a-secret'')) accessToken
             = Some (Jwt alice 1 3601 ''a-secret'')"
    by (simp add: extractToken_def bearer_def)
  have l: "(3600999::nat) div 1000 < 1000 div 1000 + ACCESS_TOKEN_EXPIRES_IN env0"
    by (simp add: env0_def)
  show ?thesis
    using access_round_trip[of env0 alice 1000 "Jwt alice 1 3601 ''a-secret''"
        "bearer (Jwt alice 1 3601 ''a-secret'')" 3600999] g e l
    by simp
qed


section \<open>Store and refresh: lemmas\<close>

lemma query_eq:
  "query d = (faults d \<noteq> [] \<and> hd (faults d), d\<lparr>faults := tl (faults d)\<rparr>)"
  by (cases "faults d") (simp_all add: query_def)

lemma query_tables [simp]:
  "refresh_token (snd (query d)) = refresh_token d"
  "users (snd (query d)) = users d"
  "next_id (snd (query d)) = next_id d"
  by (simp_all add: query_eq)


lemma query_fault: "fst (query d) = fault_at d 0"
  by (cases "faults d") (simp_all add: query_def fault_at_def)

lemma fault_at_query [simp]: "fault_at (snd (query d)) n = fault_at d (Suc n)"
  by (simp add: query_eq fault_at_def drop_Suc)

lemma fault_at_rows [simp]: "fault_at (d\<lparr>refresh_token := rs\<rparr>) n = fault_at d n"
  by (simp add: fault_at_def)


lemma generate_Inr:
  "generateAccessToken ev p t = Inr tok \<Longrightarrow>
   \<exists>k. ACCESS_TOKEN_SECRET ev = Some k \<and>
       tok = Jwt p (t div 1000) (t div 1000 + ACCESS_TOKEN_EXPIRES_IN ev) k"
  by (auto simp: generateAccessToken_def jwt_sign_def split: option.splits if_splits)

lemma find_eq:
  "Token_findRefreshToken ev tok d =
     (if fst (query d) then (Inl StorageError, snd (query d))
      else (Inr (find (\<lambda>r. bcrypt_compare ev tok (token r)) (refresh_token d)), snd (query d)))"
  by (simp add: Token_findRefreshToken_def case_prod_beta)

lemma find_tables [simp]:
  "refresh_token (snd (Token_findRefreshToken ev tok d)) = refresh_token d"
  "users (snd (Token_findRefreshToken ev tok d)) = users d"
  by (simp_all add: find_eq)

lemma User_find_eq:
  "User_findByUserid uid d =
     (if fst (query d) then (Inl StorageError, snd (query d))
      else (Inr (find (\<lambda>u. userid u = uid) (users d)), snd (query d)))"
  by (simp add: User_findByUserid_def case_prod_beta)

lemma User_find_tables [simp]:
  "refresh_token (snd (User_findByUserid uid d)) = refresh_token d"
  by (simp add: User_find_eq)

lemma deleteByToken_eq:
  "Token_deleteRefreshTokenByToken ev tok d =
     (if fst (query d) then (Inl StorageError, snd (query d))
      else case find (\<lambda>r. bcrypt_compare ev tok (token r)) (refresh_token d) of
        None \<Rightarrow> (Inr False, snd (query d))
      | Some r \<Rightarrow>
          if fst (query (snd (query d))) then (Inl StorageError, snd (query (snd (query d))))
          else (Inr True, (snd (query (snd (query d))))
                  \<lparr>refresh_token := filter (\<lambda>x. rid x \<noteq> rid r) (refresh_token d)\<rparr>))"
  by (simp add: Token_deleteRefreshTokenByToken_def find_eq case_prod_beta split: option.splits)

lemma verifyRefresh_eq:
  "verifyRefreshToken ev tok t d =
     (case jwt_verify tok (REFRESH_TOKEN_SECRET ev) t of
        Inl e \<Rightarrow> (None, d)
      | Inr dec \<Rightarrow>
          if fst (query d) then (None, snd (query d))
          else case find (\<lambda>r. bcrypt_compare ev tok (token r)) (refresh_token d) of
            None \<Rightarrow> (None, snd (query d))
          | Some r \<Rightarrow>
              if expires_at r < t
              then (None, snd (Token_deleteRefreshTokenByToken ev tok (snd (query d))))
              else (Some dec, snd (query d)))"
  by (simp add: verifyRefreshToken_def find_eq split: sum.splits option.splits)

lemma jwt_verify_Inl_iff:
  "(\<exists>e. jwt_verify tok sec t = Inl e) = (\<not> signature_valid sec tok \<or> ttl_passed tok t)"
  by (cases tok) (auto simp: signature_valid_def ttl_passed_def)

lemma verifyRefresh_None_iff:
  "fst (verifyRefreshToken ev tok t d) = None \<longleftrightarrow>
     (\<not> signature_valid (REFRESH_TOKEN_SECRET ev) tok \<or> ttl_passed tok t \<or> fst (query d) \<or>
      unmatched ev tok d \<or>
      (\<exists>r. find (\<lambda>r. bcrypt_compare ev tok (token r)) (refresh_token d) = Some r \<and>
           expires_at r < t))"
proof (cases "jwt_verify tok (REFRESH_TOKEN_SECRET ev) t")
  case (Inl e)
  then show ?thesis using jwt_verify_Inl_iff[of tok "REFRESH_TOKEN_SECRET ev" t]
    by (simp add: verifyRefresh_eq)
next
  case (Inr dec)
  then have "\<not> (\<not> signature_valid (REFRESH_TOKEN_SECRET ev) tok \<or> ttl_passed tok t)"
    using jwt_verify_Inl_iff[of tok "REFRESH_TOKEN_SECRET ev" t] by simp
  then show ?thesis using Inr
    by (auto simp: verifyRefresh_eq unmatched_def split: option.splits)
qed

lemma refresh_None:
  "extractToken req refreshToken = Some tok \<Longrightarrow> tok \<noteq> Raw [] \<Longrightarrow>
   fst (verifyRefreshToken ev tok t d) = None \<Longrightarrow>
   authController_refreshToken ev req t d = (refresh_rejected, snd (verifyRefreshToken ev tok t d))"
  by (cases "verifyRefreshToken ev tok t d")
     (simp add: authController_refreshToken_def refresh_rejected_def)


lemma verifyRefresh_Some:
  "fst (verifyRefreshToken ev tok t d) = Some dec \<Longrightarrow>
   jwt_verify tok (REFRESH_TOKEN_SECRET ev) t = Inr dec \<and>
   refresh_token (snd (verifyRefreshToken ev tok t d)) = refresh_token d \<and>
   users (snd (verifyRefreshToken ev tok t d)) = users d"
  by (auto simp: verifyRefresh_eq split: sum.splits option.splits if_splits)

lemma verifyRefresh_Some_tables:
  "fst (verifyRefreshToken ev tok t d) = Some dec \<Longrightarrow>
   refresh_token (snd (verifyRefreshToken ev tok t d)) = refresh_token d"
  by (auto simp: verifyRefresh_eq split: sum.splits option.splits if_splits)


text \<open>Definitions to unfold when a concrete run is evaluated.\<close>

lemmas eval_defs =
  login_issue_def generateAccessToken_def generateRefreshToken_def jwt_sign_def
  saveRefreshToken_def Token_saveRefreshToken_def Token_deleteRefreshToken_def
  Token_findRefreshToken_def Token_deleteRefreshTokenByToken_def User_findByUserid_def
  verifyRefreshToken_def authController_refreshToken_def authController_logout_def
  logout_route_def optional_auth_def extractToken_def truthy_def query_def
  setTokenCookies_def cookieOptions_def reply_def usable_def
  env0_def env30_def alice_def alice_user_def db0_def bearer_def logged_in_def Let_def

lemma logged_in_env0:
  "logged_in env0 =
     \<lparr>refresh_token = [\<lparr>rid = 1, user_id = 1,
                         token = bcrypt_hash env0 7 (Jwt alice 0 604800 ''r-secret''),
                         expires_at = 604800000\<rparr>],
      next_id = 2, users = [alice_user], faults = []\<rparr>"
  by (simp add: eval_defs)

lemma logged_in_env30:
  "logged_in env30 =
     \<lparr>refresh_token = [\<lparr>rid = 1, user_id = 1,
                         token = bcrypt_hash env30 7 (Jwt alice 0 2592000 ''r-secret''),
                         expires_at = 604800000\<rparr>],
      next_id = 2, users = [alice_user], faults = []\<rparr>"
  by (simp add: eval_defs)

lemmas login_defs =
  login_issue_def generateAccessToken_def generateRefreshToken_def jwt_sign_def
  saveRefreshToken_def Token_saveRefreshToken_def Token_deleteRefreshToken_def
  query_def reply_def usable_def env_with_def env0_def alice_def alice_user_def db0_def
  Let_def

section \<open>Refresh: claims\<close>

text \<open>
  Claim C10. \<^verbatim>\<open>verifyRefreshToken\<close> always returns (it has no error result), and
  it returns \<^verbatim>\<open>null\<close> exactly when the signature does not verify, or the
  token's own expiry has passed, or the lookup fails, or no stored hash matches, or the
  matching row has expired. Whenever it returns \<^verbatim>\<open>null\<close> for a presented
  token, the refresh endpoint gives one and the same 401 answer, with no
  \<^verbatim>\<open>expired\<close> flag.
\<close>

theorem refresh_failures_collapse:
  "(fst (verifyRefreshToken ev tok t d) = None \<longleftrightarrow>
     (\<not> signature_valid (REFRESH_TOKEN_SECRET ev) tok \<or> ttl_passed tok t \<or> fst (query d) \<or>
      unmatched ev tok d \<or>
      (\<exists>r. find (\<lambda>r. bcrypt_compare ev tok (token r)) (refresh_token d) = Some r \<and>
           expires_at r < t))) \<and>
   (extractToken req refreshToken = Some tok \<and> tok \<noteq> Raw [] \<and>
    fst (verifyRefreshToken ev tok t d) = None \<longrightarrow>
      fst (authController_refreshToken ev req t d) = refresh_rejected) \<and>
   status refresh_rejected = 401 \<and> expired refresh_rejected = None"
  using verifyRefresh_None_iff[of ev tok t d] refresh_None[of req tok ev t d]
  by (simp add: refresh_rejected_def reply_def)

theorem refresh_failures_collapse_witness:
  "fst (authController_refreshToken env0 (bearer (Jwt alice 0 604800 ''forged'')) 1000
       (logged_in env0)) = refresh_rejected \<and>
   fst (authController_refreshToken env0 (bearer (Jwt alice 0 604800 ''r-secret'')) 604800000
       (logged_in env0)) = refresh_rejected \<and>
   fst (authController_refreshToken env0 (bearer (Jwt alice 0 604800 ''r-secret'')) 1000
       ((logged_in env0)\<lparr>faults := [True]\<rparr>)) = refresh_rejected \<and>
   fst (authController_refreshToken env0 (bearer (Jwt alice 0 604800 ''r-secret'')) 1000 db0)
     = refresh_rejected"
proof -
  let ?rt = "Jwt alice 0 604800 ''r-secret''" and ?forged = "Jwt alice 0 604800 ''forged''"
  have ex: "extractToken (bearer tok) refreshToken = Some tok" for tok
    by (simp add: extractToken_def bearer_def)
  have n1: "fst (verifyRefreshToken env0 ?forged 1000 (logged_in env0)) = None"
    using refresh_failures_collapse[of env0 ?forged 1000 "logged_in env0"]
    by (simp add: signature_valid_def env0_def)
  have n2: "fst (verifyRefreshToken env0 ?rt 604800000 (logged_in env0)) = None"
    using refresh_failures_collapse[of env0 ?rt 604800000 "logged_in env0"]
    by (simp add: ttl_passed_def)
  have n3: "fst (verifyRefreshToken env0 ?rt 1000 ((logged_in env0)\<lparr>faults := [True]\<rparr>)) = None"
    using refresh_failures_collapse[of env0 ?rt 1000 "(logged_in env0)\<lparr>faults := [True]\<rparr>"]
    by (simp add: query_def)
  have n4: "fst (verifyRefreshToken env0 ?rt 1000 db0) = None"
    using refresh_failures_collapse[of env0 ?rt 1000 db0]
    by (simp add: unmatched_def db0_def)
  show ?thesis
    using refresh_failures_collapse[of env0 ?forged 1000 "logged_in env0" "bearer ?forged"]
      refresh_failures_collapse[of env0 ?rt 604800000 "logged_in env0" "bearer ?rt"]
      refresh_failures_collapse[of env0 ?rt 1000 "(logged_in env0)\<lparr>faults := [True]\<rparr>" "bearer ?rt"]
      refresh_failures_collapse[of env0 ?rt 1000 db0 "bearer ?rt"]
      n1 n2 n3 n4 ex
    by simp
qed

text \<open>
  Claim C6. When a refresh succeeds (status 200), the \<^verbatim>\<open>refresh_token\<close> table
  is as it was and the answer carries no refresh token. What it carries is the access
  token that \<^verbatim>\<open>generateAccessToken\<close> signs at that moment, with the access
  secret and lifetime, for the stored user whose \<^verbatim>\<open>userid\<close> is the one in the
  verified refresh token; the same token is the value of the only cookie set,
  \<^verbatim>\<open>accessToken\<close>, and no cookie is cleared.
\<close>

theorem refresh_issues_access_only:
  assumes ok: "status (fst (authController_refreshToken ev req t d)) = 200"
  shows "refresh_token (snd (authController_refreshToken ev req t d)) = refresh_token d \<and>
         out_refreshToken (fst (authController_refreshToken ev req t d)) = None \<and>
         (\<exists>rtok dec usr k.
            extractToken req refreshToken = Some rtok \<and>
            jwt_verify rtok (REFRESH_TOKEN_SECRET ev) t = Inr dec \<and>
            find (\<lambda>u. userid u = c_userid (payload dec)) (users d) = Some usr \<and>
            ACCESS_TOKEN_SECRET ev = Some k \<and>
            generateAccessToken ev
                \<lparr>c_id = userindex usr, c_userid = userid usr, c_name = name usr,
                 c_rememberMe = None\<rparr> t
              = Inr (Jwt \<lparr>c_id = userindex usr, c_userid = userid usr, c_name = name usr,
                         c_rememberMe = None\<rparr>
                       (t div 1000) (t div 1000 + ACCESS_TOKEN_EXPIRES_IN ev) k) \<and>
            out_accessToken (fst (authController_refreshToken ev req t d))
              = Some (Jwt \<lparr>c_id = userindex usr, c_userid = userid usr, c_name = name usr,
                          c_rememberMe = None\<rparr>
                        (t div 1000) (t div 1000 + ACCESS_TOKEN_EXPIRES_IN ev) k) \<and>
            set_cookies (fst (authController_refreshToken ev req t d))
              = [\<lparr>cname = ''accessToken'',
                  cvalue = TokenValue
                    (Jwt \<lparr>c_id = userindex usr, c_userid = userid usr, c_name = name usr,
                          c_rememberMe = None\<rparr>
                       (t div 1000) (t div 1000 + ACCESS_TOKEN_EXPIRES_IN ev) k),
                  options = cookieOptions ev True, maxAge = 3600000\<rparr>]) \<and>
         cleared_cookies (fst (authController_refreshToken ev req t d)) = []"
proof (cases "extractToken req refreshToken")
  case None
  with ok show ?thesis by (simp add: authController_refreshToken_def reply_def)
next
  case (Some tok)
  show ?thesis
  proof (cases "tok = Raw []")
    case True
    with ok Some show ?thesis by (simp add: authController_refreshToken_def reply_def)
  next
    case False
    obtain r d1 where v: "verifyRefreshToken ev tok t d = (r, d1)"
      by (cases "verifyRefreshToken ev tok t d")
    show ?thesis
    proof (cases r)
      case None
      with ok Some False v show ?thesis by (simp add: authController_refreshToken_def reply_def)
    next
      case dec: (Some dec)
      with v have vs: "fst (verifyRefreshToken ev tok t d) = Some dec"
        and d1: "d1 = snd (verifyRefreshToken ev tok t d)" by simp_all
      from verifyRefresh_Some[OF vs] d1
      have jv: "jwt_verify tok (REFRESH_TOKEN_SECRET ev) t = Inr dec"
        and rows1: "refresh_token d1 = refresh_token d" and us1: "users d1 = users d"
        by simp_all
      let ?uid = "c_userid (payload dec)"
      obtain u d2 where f: "User_findByUserid ?uid d1 = (u, d2)"
        by (cases "User_findByUserid ?uid d1")
      then have rows2: "refresh_token d2 = refresh_token d1"
        using User_find_tables[of ?uid d1] by simp
      show ?thesis
      proof (cases u)
        case (Inl e)
        with ok Some False v dec f show ?thesis
          by (simp add: authController_refreshToken_def reply_def)
      next
        case (Inr uo)
        show ?thesis
        proof (cases uo)
          case None
          with ok Some False v dec f Inr show ?thesis
            by (simp add: authController_refreshToken_def reply_def)
        next
          case usr: (Some usr)
          let ?info = "\<lparr>c_id = userindex usr, c_userid = userid usr, c_name = name usr,
                         c_rememberMe = None\<rparr>"
          from f Inr usr have fu: "find (\<lambda>u. userid u = ?uid) (users d) = Some usr"
            by (auto simp: User_find_eq us1 split: if_splits)
          show ?thesis
          proof (cases "generateAccessToken ev ?info t")
            case gl: (Inl e)
            with ok Some False v dec f Inr usr show ?thesis
              by (simp add: authController_refreshToken_def reply_def)
          next
            case g: (Inr atok)
            from generate_Inr[OF g] obtain k where k: "ACCESS_TOKEN_SECRET ev = Some k"
              and at: "atok = Jwt ?info (t div 1000) (t div 1000 + ACCESS_TOKEN_EXPIRES_IN ev) k"
              by blast
            have res: "authController_refreshToken ev req t d =
               ((reply 200 True AccessTokenRefreshed)
                  \<lparr>out_accessToken := Some atok,
                   set_cookies := [\<lparr>cname = ''accessToken'', cvalue = TokenValue atok,
                                     options = cookieOptions ev True,
                                     maxAge = 60 * 60 * 1000\<rparr>]\<rparr>, d2)"
              using Some False v dec f Inr usr g
              by (simp add: authController_refreshToken_def)
            have "\<exists>rtok dec usr k.
                extractToken req refreshToken = Some rtok \<and>
                jwt_verify rtok (REFRESH_TOKEN_SECRET ev) t = Inr dec \<and>
                find (\<lambda>u. userid u = c_userid (payload dec)) (users d) = Some usr \<and>
                ACCESS_TOKEN_SECRET ev = Some k \<and>
                generateAccessToken ev
                    \<lparr>c_id = userindex usr, c_userid = userid usr, c_name = name usr,
                     c_rememberMe = None\<rparr> t
                  = Inr (Jwt \<lparr>c_id = userindex usr, c_userid = userid usr,
                              c_name = name usr, c_rememberMe = None\<rparr>
                           (t div 1000) (t div 1000 + ACCESS_TOKEN_EXPIRES_IN ev) k) \<and>
                out_accessToken (fst (authController_refreshToken ev req t d))
                  = Some (Jwt \<lparr>c_id = userindex usr, c_userid = userid usr,
                               c_name = name usr, c_rememberMe = None\<rparr>
                            (t div 1000) (t div 1000 + ACCESS_TOKEN_EXPIRES_IN ev) k) \<and>
                set_cookies (fst (authController_refreshToken ev req t d))
                  = [\<lparr>cname = ''accessToken'',
                      cvalue = TokenValue
                        (Jwt \<lparr>c_id = userindex usr, c_userid = userid usr,
                              c_name = name usr, c_rememberMe = None\<rparr>
                           (t div 1000) (t div 1000 + ACCESS_TOKEN_EXPIRES_IN ev) k),
                      options = cookieOptions ev True, maxAge = 3600000\<rparr>]"
              apply (rule exI[of _ tok], rule exI[of _ dec], rule exI[of _ usr], rule exI[of _ k])
              using Some jv fu k g at by (simp add: res)
            moreover have "refresh_token (snd (authController_refreshToken ev req t d))
                = refresh_token d"
              by (simp add: res rows2 rows1)
            moreover have "out_refreshToken (fst (authController_refreshToken ev req t d)) = None"
              "cleared_cookies (fst (authController_refreshToken ev req t d)) = []"
              by (simp_all add: res reply_def)
            ultimately show ?thesis by blast
          qed
        qed
      qed
    qed
  qed
qed

theorem refresh_issues_access_only_witness:
  "status (fst (authController_refreshToken env0 (bearer (Jwt alice 0 604800 ''r-secret'')) 1000
       (logged_in env0))) = 200 \<and>
   refresh_token (snd (authController_refreshToken env0 (bearer (Jwt alice 0 604800 ''r-secret''))
       1000 (logged_in env0))) = refresh_token (logged_in env0) \<and>
   out_refreshToken (fst (authController_refreshToken env0
       (bearer (Jwt alice 0 604800 ''r-secret'')) 1000 (logged_in env0))) = None \<and>
   out_accessToken (fst (authController_refreshToken env0
       (bearer (Jwt alice 0 604800 ''r-secret'')) 1000 (logged_in env0)))
     = Some (Jwt \<lparr>c_id = Some 1, c_userid = ''alice'', c_name = ''Alice'',
                  c_rememberMe = None\<rparr> 1 3601 ''a-secret'')"
proof -
  let ?R = "authController_refreshToken env0 (bearer (Jwt alice 0 604800 ''r-secret'')) 1000
       (logged_in env0)"
  have s: "status (fst ?R) = 200"
    unfolding logged_in_env0 by (simp add: eval_defs)
  have a: "out_accessToken (fst ?R)
     = Some (Jwt \<lparr>c_id = Some 1, c_userid = ''alice'', c_name = ''Alice'',
                  c_rememberMe = None\<rparr> 1 3601 ''a-secret'')"
    unfolding logged_in_env0 by (simp add: eval_defs)
  show ?thesis
    using refresh_issues_access_only[OF s] s a by simp
qed

text \<open>
  Claim C3, as amended. When the presented refresh token passes \<^verbatim>\<open>jwt.verify\<close>
  (its signature verifies and its own expiry has not passed), none of the three storage
  calls fails (the lookup, the lookup inside the delete, the delete), and the row found
  for it has an \<^verbatim>\<open>expires_at\<close> in the past, the refresh deletes that row and
  answers the 401 of a rejected refresh token. When the token's own expiry has passed,
  the refresh gives the same 401 answer and leaves the store as it was: no storage
  call is made and the row stays.
\<close>

theorem refresh_expired_row:
  "(extractToken req refreshToken = Some tok \<and> tok \<noteq> Raw [] \<and>
    signature_valid (REFRESH_TOKEN_SECRET ev) tok \<and> \<not> ttl_passed tok t \<and>
    \<not> fault_at d 0 \<and> \<not> fault_at d 1 \<and> \<not> fault_at d 2 \<and>
    find (\<lambda>r. bcrypt_compare ev tok (token r)) (refresh_token d) = Some r \<and>
    expires_at r < t \<longrightarrow>
      fst (authController_refreshToken ev req t d) = refresh_rejected \<and>
      refresh_token (snd (authController_refreshToken ev req t d))
        = filter (\<lambda>x. rid x \<noteq> rid r) (refresh_token d) \<and>
      r \<notin> set (refresh_token (snd (authController_refreshToken ev req t d)))) \<and>
   (extractToken req refreshToken = Some tok \<and> tok \<noteq> Raw [] \<and> ttl_passed tok t \<longrightarrow>
      authController_refreshToken ev req t d = (refresh_rejected, d))"
proof -
  have one: "fst (authController_refreshToken ev req t d) = refresh_rejected \<and>
      refresh_token (snd (authController_refreshToken ev req t d))
        = filter (\<lambda>x. rid x \<noteq> rid r) (refresh_token d) \<and>
      r \<notin> set (refresh_token (snd (authController_refreshToken ev req t d)))"
    if tok: "extractToken req refreshToken = Some tok" "tok \<noteq> Raw []"
      and sig: "signature_valid (REFRESH_TOKEN_SECRET ev) tok"
      and live: "\<not> ttl_passed tok t"
      and nf: "\<not> fault_at d 0" "\<not> fault_at d 1" "\<not> fault_at d 2"
      and found: "find (\<lambda>r. bcrypt_compare ev tok (token r)) (refresh_token d) = Some r"
      and old: "expires_at r < t"
  proof -
    have none: "fst (verifyRefreshToken ev tok t d) = None"
      using found old by (simp add: verifyRefresh_None_iff)
    have q1: "\<not> fst (query d)" using nf(1) by (simp add: query_fault)
    have q2: "\<not> fst (query (snd (query d)))" using nf(2) by (simp add: query_fault)
    have q3: "\<not> fst (query (snd (query (snd (query d)))))"
      using nf(3) by (simp add: query_fault numeral_2_eq_2)
    from sig live obtain dec where jv: "jwt_verify tok (REFRESH_TOKEN_SECRET ev) t = Inr dec"
      using jwt_verify_Inl_iff[of tok "REFRESH_TOKEN_SECRET ev" t]
      by (cases "jwt_verify tok (REFRESH_TOKEN_SECRET ev) t") auto
    have "refresh_token (snd (verifyRefreshToken ev tok t d))
            = filter (\<lambda>x. rid x \<noteq> rid r) (refresh_token d)"
      using jv q1 q2 q3 found old
      by (simp add: verifyRefresh_eq deleteByToken_eq)
    moreover have "r \<notin> set (filter (\<lambda>x. rid x \<noteq> rid r) (refresh_token d))" by simp
    ultimately show ?thesis using refresh_None[OF tok none] by simp
  qed
  have two: "authController_refreshToken ev req t d = (refresh_rejected, d)"
    if tok: "extractToken req refreshToken = Some tok" "tok \<noteq> Raw []"
      and gone: "ttl_passed tok t"
  proof -
    from gone obtain e where "jwt_verify tok (REFRESH_TOKEN_SECRET ev) t = Inl e"
      using jwt_verify_Inl_iff[of tok "REFRESH_TOKEN_SECRET ev" t] by blast
    then have v: "verifyRefreshToken ev tok t d = (None, d)"
      by (simp add: verifyRefreshToken_def)
    then show ?thesis using refresh_None[OF tok, of ev t d] by simp
  qed
  show ?thesis using one two by blast
qed

theorem refresh_expired_row_witness:
  "fst (authController_refreshToken env30 (bearer (Jwt alice 0 2592000 ''r-secret'')) 604800001
       (logged_in env30)) = refresh_rejected \<and>
   refresh_token (snd (authController_refreshToken env30
       (bearer (Jwt alice 0 2592000 ''r-secret'')) 604800001 (logged_in env30))) = [] \<and>
   authController_refreshToken env0 (bearer (Jwt alice 0 604800 ''r-secret'')) 604800001
       (logged_in env0) = (refresh_rejected, logged_in env0)"
proof -
  let ?tok = "Jwt alice 0 2592000 ''r-secret''"
  let ?short = "Jwt alice 0 604800 ''r-secret''"
  let ?r = "\<lparr>rid = 1, user_id = 1, token = bcrypt_hash env30 7 ?tok,
             expires_at = 604800000\<rparr>"
  have a: "extractToken (bearer tk) refreshToken = Some tk" for tk
    by (simp add: extractToken_def bearer_def)
  have b: "signature_valid (REFRESH_TOKEN_SECRET env30) ?tok"
    by (simp add: signature_valid_def env30_def env0_def usable_def)
  have c: "\<not> ttl_passed ?tok 604800001" "ttl_passed ?short 604800001"
    by (simp_all add: ttl_passed_def)
  have d: "\<not> fault_at (logged_in env30) n" for n
    by (simp add: logged_in_env30 fault_at_def)
  have e: "find (\<lambda>r. bcrypt_compare env30 ?tok (token r)) (refresh_token (logged_in env30)) = Some ?r"
    unfolding logged_in_env30 by simp
  have f: "expires_at ?r < 604800001" by simp
  have g: "refresh_token (logged_in env30) = [?r]" by (simp add: logged_in_env30)
  have w1: "fst (authController_refreshToken env30 (bearer ?tok) 604800001 (logged_in env30))
              = refresh_rejected \<and>
            refresh_token (snd (authController_refreshToken env30 (bearer ?tok) 604800001
              (logged_in env30))) = filter (\<lambda>x. rid x \<noteq> rid ?r) (refresh_token (logged_in env30))"
    using refresh_expired_row[of "bearer ?tok" ?tok env30 604800001 "logged_in env30" ?r]
      a[of ?tok] b c(1) d e f by blast
  have w2: "authController_refreshToken env0 (bearer ?short) 604800001 (logged_in env0)
              = (refresh_rejected, logged_in env0)"
    using refresh_expired_row[of "bearer ?short" ?short env0 604800001 "logged_in env0"]
      a[of ?short] c(2) by blast
  show ?thesis using w1 w2 by (simp add: g)
qed

text \<open>
  The claim as stated fails when the token's own expiry has passed as well: the
  signature verifies and the row has expired, the answer is the same 401, but the row
  stays. With the default seven-day lifetime this is the case of every expired row.
\<close>

theorem refresh_expired_row_counterexample:
  "signature_valid (REFRESH_TOKEN_SECRET env0) (Jwt alice 0 604800 ''r-secret'') \<and>
   find (\<lambda>r. bcrypt_compare env0 (Jwt alice 0 604800 ''r-secret'') (token r))
      (refresh_token (logged_in env0))
     = Some \<lparr>rid = 1, user_id = 1,
             token = bcrypt_hash env0 7 (Jwt alice 0 604800 ''r-secret''),
             expires_at = 604800000\<rparr> \<and>
   (604800000::nat) < 604800001 \<and>
   fst (authController_refreshToken env0 (bearer (Jwt alice 0 604800 ''r-secret'')) 604800001
       (logged_in env0)) = refresh_rejected \<and>
   refresh_token (snd (authController_refreshToken env0
       (bearer (Jwt alice 0 604800 ''r-secret'')) 604800001 (logged_in env0)))
     = [\<lparr>rid = 1, user_id = 1,
         token = bcrypt_hash env0 7 (Jwt alice 0 604800 ''r-secret''),
         expires_at = 604800000\<rparr>]"
  unfolding logged_in_env0
  by (simp add: eval_defs signature_valid_def refresh_rejected_def)

section \<open>Logout\<close>


lemma no_faults_rows [simp]: "no_faults (d\<lparr>refresh_token := rs\<rparr>) = no_faults d"
  by (simp add: no_faults_def)


lemma deleteUser_eq:
  "Token_deleteRefreshToken u d =
     (if u = 0 then (Inl MissingUserId, d)
      else if fst (query d) then (Inl StorageError, snd (query d))
      else (Inr True, (snd (query d))\<lparr>refresh_token := filter (\<lambda>r. user_id r \<noteq> u) (refresh_token d)\<rparr>))"
  by (simp add: Token_deleteRefreshToken_def case_prod_beta)









section \<open>The refresh-token table\<close>

lemma save_eq:
  "Token_saveRefreshToken u (Some h) (Some ex) d =
     (if u = 0 then (Inl MissingUserId, d)
      else if fst (query d) then (Inl StorageError, snd (query d))
      else if fst (query (snd (query d))) then
        (Inl StorageError,
         (snd (query (snd (query d))))
            \<lparr>refresh_token := filter (\<lambda>r. user_id r \<noteq> u) (refresh_token d)\<rparr>)
      else
        (Inr \<lparr>rid = next_id d, user_id = u, token = h, expires_at = ex\<rparr>,
         (snd (query (snd (query d))))
            \<lparr>refresh_token := filter (\<lambda>r. user_id r \<noteq> u) (refresh_token d)
                 @ [\<lparr>rid = next_id d, user_id = u, token = h, expires_at = ex\<rparr>],
             next_id := Suc (next_id d)\<rparr>))"
  by (simp add: Token_saveRefreshToken_def deleteUser_eq case_prod_beta Let_def query_eq)

lemma save_Inr:
  assumes "Token_saveRefreshToken u (Some h) (Some ex) d = (Inr r, d1)"
  shows "r = \<lparr>rid = next_id d, user_id = u, token = h, expires_at = ex\<rparr> \<and>
         refresh_token d1 = filter (\<lambda>x. user_id x \<noteq> u) (refresh_token d) @ [r]"
  using assms by (auto simp: save_eq split: if_splits)

lemma save_rows:
  "refresh_token (snd (Token_saveRefreshToken u h ex d)) = refresh_token d \<or>
   refresh_token (snd (Token_saveRefreshToken u h ex d))
     = filter (\<lambda>x. user_id x \<noteq> u) (refresh_token d) \<or>
   (\<exists>r. user_id r = u \<and> refresh_token (snd (Token_saveRefreshToken u h ex d))
     = filter (\<lambda>x. user_id x \<noteq> u) (refresh_token d) @ [r])"
proof (cases h)
  case None
  then show ?thesis by (simp add: Token_saveRefreshToken_def)
next
  case (Some hh)
  show ?thesis
  proof (cases ex)
    case None
    with Some show ?thesis by (simp add: Token_saveRefreshToken_def)
  next
    case (Some e)
    with \<open>h = Some hh\<close> show ?thesis by (simp add: save_eq)
  qed
qed

lemma distinct_drop_user:
  "distinct (map user_id rs) \<Longrightarrow> distinct (map user_id (filter (\<lambda>x. user_id x \<noteq> u) rs))"
  by (rule distinct_map_filter)

lemma distinct_replace_user:
  assumes "distinct (map user_id rs)" "user_id r = u"
  shows "distinct (map user_id (filter (\<lambda>x. user_id x \<noteq> u) rs @ [r]))"
  using assms by (auto simp: distinct_map_filter)

lemma save_keeps_one_row:
  "one_row_per_user d \<Longrightarrow> one_row_per_user (snd (Token_saveRefreshToken u h ex d))"
  using save_rows[of u h ex d]
  by (auto simp: one_row_per_user_def distinct_drop_user distinct_replace_user)

lemma deleteUser_keeps_one_row:
  "one_row_per_user d \<Longrightarrow> one_row_per_user (snd (Token_deleteRefreshToken u d))"
  by (simp add: one_row_per_user_def deleteUser_eq distinct_map_filter)

lemma deleteByToken_keeps_one_row:
  "one_row_per_user d \<Longrightarrow> one_row_per_user (snd (Token_deleteRefreshTokenByToken ev tok d))"
  by (simp add: one_row_per_user_def deleteByToken_eq distinct_map_filter split: option.splits)

lemma only_row:
  "filter (\<lambda>x. user_id x = u) (filter (\<lambda>x. user_id x \<noteq> u) rs @ [r]) = (if user_id r = u then [r] else [])"
  by (induction rs) auto

lemma find_append_last:
  "\<forall>x\<in>set xs. \<not> P x \<Longrightarrow> find P (xs @ [y]) = (if P y then Some y else None)"
  by (induction xs) auto

lemma save_only_row:
  "Token_saveRefreshToken u (Some hh) (Some e) d = (Inr r, d1) \<Longrightarrow>
   filter (\<lambda>x. user_id x = u) (refresh_token d1) = [r]"
  using save_Inr[of u hh e d r d1] by (simp add: only_row)

lemma login_success:
  assumes ok: "status (fst (login_issue ev slt usr rm t d)) = 200"
  shows "\<exists>uidx k r d1.
           userindex usr = Some uidx \<and> REFRESH_TOKEN_SECRET ev = Some k \<and>
           out_refreshToken (fst (login_issue ev slt usr rm t d))
             = Some (Jwt \<lparr>c_id = Some uidx, c_userid = userid usr, c_name = name usr,
                          c_rememberMe = Some rm\<rparr>
                       (t div 1000) (t div 1000 + REFRESH_TOKEN_EXPIRES_IN ev) k) \<and>
           snd (login_issue ev slt usr rm t d) = d1 \<and>
           refresh_token d1 = filter (\<lambda>x. user_id x \<noteq> uidx) (refresh_token d) @ [r] \<and>
           r = \<lparr>rid = next_id d, user_id = uidx,
                 token = bcrypt_hash ev slt
                   (Jwt \<lparr>c_id = Some uidx, c_userid = userid usr, c_name = name usr,
                         c_rememberMe = Some rm\<rparr>
                      (t div 1000) (t div 1000 + REFRESH_TOKEN_EXPIRES_IN ev) k),
                 expires_at = t + 604800000\<rparr>"
proof (cases "userindex usr")
  case None
  with ok show ?thesis by (simp add: login_issue_def reply_def)
next
  case (Some uidx)
  let ?info = "\<lparr>c_id = Some uidx, c_userid = userid usr, c_name = name usr,
                 c_rememberMe = Some rm\<rparr>"
  show ?thesis
  proof (cases "generateAccessToken ev ?info t")
    case (Inl e)
    with ok Some show ?thesis by (simp add: login_issue_def reply_def)
  next
    case (Inr at)
    show ?thesis
    proof (cases "generateRefreshToken ev ?info t")
      case (Inl e)
      with ok Some Inr show ?thesis by (simp add: login_issue_def reply_def)
    next
      case rt: (Inr rtok)
      then obtain k where k: "REFRESH_TOKEN_SECRET ev = Some k"
        and rtok: "rtok = Jwt ?info (t div 1000) (t div 1000 + REFRESH_TOKEN_EXPIRES_IN ev) k"
        by (auto simp: generateRefreshToken_def jwt_sign_def split: option.splits if_splits)
      obtain res d1 where sv: "saveRefreshToken ev slt uidx rtok t d = (res, d1)"
        by (cases "saveRefreshToken ev slt uidx rtok t d")
      show ?thesis
      proof (cases res)
        case (Inl e)
        with ok Some Inr rt sv show ?thesis by (simp add: login_issue_def reply_def)
      next
        case row: (Inr r)
        from sv row have sv': "Token_saveRefreshToken uidx (Some (bcrypt_hash ev slt rtok))
            (Some (t + 604800000)) d = (Inr r, d1)"
          by (simp add: saveRefreshToken_def)
        have res: "login_issue ev slt usr rm t d =
           ((reply 200 True LoginOk)
              \<lparr>out_accessToken := Some at, out_refreshToken := Some rtok,
               out_rememberMe := Some rm,
               set_cookies := setTokenCookies ev at rtok rm\<rparr>, d1)"
          using Some Inr rt sv row by (simp add: login_issue_def)
        show ?thesis
          apply (rule exI[of _ uidx], rule exI[of _ k], rule exI[of _ r], rule exI[of _ d1])
          using Some k save_Inr[OF sv'] by (simp add: res rtok)
      qed
    qed
  qed
qed

lemma login_token_ok:
  "out_refreshToken (fst (login_issue ev slt usr rm t d)) = Some tok \<Longrightarrow>
   status (fst (login_issue ev slt usr rm t d)) = 200"
  by (auto simp: login_issue_def reply_def Let_def split: option.splits sum.splits prod.splits)

text \<open>
  After a user has logged in again, the refresh token of the earlier login is still
  found: the lookup returns some row, never \<^verbatim>\<open>null\<close>, whatever the digest.
\<close>

lemma earlier_token_found:
  assumes first: "out_refreshToken (fst (login_issue ev s1 usr rm1 t1 d)) = Some tokA"
    and again: "status (fst (login_issue ev s2 usr rm2 t2 d')) = 200"
    and q: "\<not> fault_at (snd (login_issue ev s2 usr rm2 t2 d')) 0"
  shows "\<exists>r. fst (Token_findRefreshToken ev tokA (snd (login_issue ev s2 usr rm2 t2 d')))
              = Inr (Some r)"
proof -
  from login_success[OF login_token_ok[OF first]] first
  obtain uidx k where u: "userindex usr = Some uidx"
    and a: "tokA = Jwt \<lparr>c_id = Some uidx, c_userid = userid usr, c_name = name usr,
                        c_rememberMe = Some rm1\<rparr>
                     (t1 div 1000) (t1 div 1000 + REFRESH_TOKEN_EXPIRES_IN ev) k"
    by auto
  from login_success[OF again] obtain uidx' k' r d1
    where u': "userindex usr = Some uidx'"
      and d1: "snd (login_issue ev s2 usr rm2 t2 d') = d1"
      and rows1: "refresh_token d1 = filter (\<lambda>x. user_id x \<noteq> uidx') (refresh_token d') @ [r]"
      and r: "r = \<lparr>rid = next_id d', user_id = uidx',
                 token = bcrypt_hash ev s2
                   (Jwt \<lparr>c_id = Some uidx', c_userid = userid usr, c_name = name usr,
                         c_rememberMe = Some rm2\<rparr>
                      (t2 div 1000) (t2 div 1000 + REFRESH_TOKEN_EXPIRES_IN ev) k'),
                 expires_at = t2 + 604800000\<rparr>"
    by blast
  from u u' have same: "uidx' = uidx" by simp
  have rows: "r \<in> set (refresh_token (snd (login_issue ev s2 usr rm2 t2 d')))"
    by (simp add: d1 rows1)
  have tr: "token r = bcrypt_hash ev s2
               (Jwt \<lparr>c_id = Some uidx, c_userid = userid usr, c_name = name usr,
                     c_rememberMe = Some rm2\<rparr>
                  (t2 div 1000) (t2 div 1000 + REFRESH_TOKEN_EXPIRES_IN ev) k')"
    by (simp add: r same)
  have "bcrypt_compare ev tokA (token r)"
    unfolding a tr by (rule bcrypt_same_user) simp_all
  with rows have "find (\<lambda>r. bcrypt_compare ev tokA (token r))
      (refresh_token (snd (login_issue ev s2 usr rm2 t2 d'))) \<noteq> None"
    by (auto simp: find_None_iff)
  then show ?thesis using q by (auto simp: find_eq query_fault)
qed

text \<open>
  Claim C1, on the code. The sample user logs in at time 0 and again one second later,
  under the default configuration with any HMAC and any bcrypt digest. The two refresh
  tokens differ, and the table then holds exactly one row, the one of the second login,
  which a lookup of the second token returns. But a lookup of the first token returns
  that row too, not \<^verbatim>\<open>null\<close>, and a refresh that presents the first token
  succeeds: both tokens start with the same 72 bytes, which is all bcrypt reads.
\<close>

theorem first_token_still_found:
  "out_refreshToken (fst (login_issue (env_with hm dg) 7 alice_user False 0 db0))
     = Some (Jwt alice 0 604800 ''r-secret'') \<and>
   out_refreshToken (fst (login_issue (env_with hm dg) 8 alice_user False 1000
       (logged_in (env_with hm dg))))
     = Some (Jwt alice 1 604801 ''r-secret'') \<and>
   Jwt alice 0 604800 ''r-secret'' \<noteq> Jwt alice 1 604801 ''r-secret'' \<and>
   refresh_token (logged_in_again (env_with hm dg))
     = [\<lparr>rid = 2, user_id = 1,
         token = bcrypt_hash (env_with hm dg) 8 (Jwt alice 1 604801 ''r-secret''),
         expires_at = 604801000\<rparr>] \<and>
   one_row_per_user (logged_in_again (env_with hm dg)) \<and>
   fst (Token_findRefreshToken (env_with hm dg) (Jwt alice 1 604801 ''r-secret'')
         (logged_in_again (env_with hm dg)))
     = Inr (Some \<lparr>rid = 2, user_id = 1,
                  token = bcrypt_hash (env_with hm dg) 8 (Jwt alice 1 604801 ''r-secret''),
                  expires_at = 604801000\<rparr>) \<and>
   fst (Token_findRefreshToken (env_with hm dg) (Jwt alice 0 604800 ''r-secret'')
         (logged_in_again (env_with hm dg)))
     = Inr (Some \<lparr>rid = 2, user_id = 1,
                  token = bcrypt_hash (env_with hm dg) 8 (Jwt alice 1 604801 ''r-secret''),
                  expires_at = 604801000\<rparr>) \<and>
   status (fst (authController_refreshToken (env_with hm dg)
         (bearer (Jwt alice 0 604800 ''r-secret'')) 2000 (logged_in_again (env_with hm dg))))
     = 200"
proof -
  let ?ev = "env_with hm dg"
  let ?tA = "Jwt alice 0 604800 ''r-secret''" and ?tB = "Jwt alice 1 604801 ''r-secret''"
  let ?rB = "\<lparr>rid = 2, user_id = 1, token = bcrypt_hash ?ev 8 ?tB, expires_at = 604801000\<rparr>"
  have l1: "login_issue ?ev 7 alice_user False 0 db0 =
      ((reply 200 True LoginOk)
         \<lparr>out_accessToken := Some (Jwt alice 0 3600 ''a-secret''),
          out_refreshToken := Some ?tA, out_rememberMe := Some False,
          set_cookies := setTokenCookies ?ev (Jwt alice 0 3600 ''a-secret'') ?tA False\<rparr>,
       \<lparr>refresh_token = [\<lparr>rid = 1, user_id = 1, token = bcrypt_hash ?ev 7 ?tA,
                           expires_at = 604800000\<rparr>],
        next_id = 2, users = [alice_user], faults = []\<rparr>)"
    by (simp add: login_defs)
  have d1: "logged_in ?ev =
       \<lparr>refresh_token = [\<lparr>rid = 1, user_id = 1, token = bcrypt_hash ?ev 7 ?tA,
                           expires_at = 604800000\<rparr>],
        next_id = 2, users = [alice_user], faults = []\<rparr>"
    by (simp add: logged_in_def l1)
  have l2: "login_issue ?ev 8 alice_user False 1000 (logged_in ?ev) =
      ((reply 200 True LoginOk)
         \<lparr>out_accessToken := Some (Jwt alice 1 3601 ''a-secret''),
          out_refreshToken := Some ?tB, out_rememberMe := Some False,
          set_cookies := setTokenCookies ?ev (Jwt alice 1 3601 ''a-secret'') ?tB False\<rparr>,
       \<lparr>refresh_token = [?rB], next_id = 3, users = [alice_user], faults = []\<rparr>)"
    unfolding d1 by (simp add: login_defs)
  have d2: "logged_in_again ?ev =
      \<lparr>refresh_token = [?rB], next_id = 3, users = [alice_user], faults = []\<rparr>"
    by (simp add: logged_in_again_def l2)
  have same: "bcrypt_compare ?ev ?tA (bcrypt_hash ?ev 8 ?tB)"
    by (rule bcrypt_same_user[of _ 1]) (simp_all add: alice_def)
  have fB: "fst (Token_findRefreshToken ?ev ?tB (logged_in_again ?ev)) = Inr (Some ?rB)"
    unfolding d2 by (simp add: find_eq query_def)
  have fA: "fst (Token_findRefreshToken ?ev ?tA (logged_in_again ?ev)) = Inr (Some ?rB)"
    unfolding d2 using same by (simp add: find_eq query_def)
  have jv: "jwt_verify ?tA (REFRESH_TOKEN_SECRET ?ev) 2000
              = Inr \<lparr>payload = alice, iat = 0, exp = 604800\<rparr>"
    by (simp add: env_with_def env0_def usable_def)
  have vr: "verifyRefreshToken ?ev ?tA 2000 (logged_in_again ?ev)
              = (Some \<lparr>payload = alice, iat = 0, exp = 604800\<rparr>, logged_in_again ?ev)"
    unfolding d2 using same jv by (simp add: verifyRefresh_eq query_def)
  have uf: "User_findByUserid ''alice'' (logged_in_again ?ev)
              = (Inr (Some alice_user), logged_in_again ?ev)"
    unfolding d2 by (simp add: User_findByUserid_def query_def alice_user_def)
  have ga: "generateAccessToken ?ev p 2000 = Inr (Jwt p 2 3602 ''a-secret'')" for p
    by (simp add: generateAccessToken_def jwt_sign_def env_with_def env0_def)
  have al: "c_userid alice = ''alice''" "userindex alice_user = Some 1"
    "userid alice_user = ''alice''" "name alice_user = ''Alice''"
    by (simp_all add: alice_def alice_user_def)
  have st: "status (fst (authController_refreshToken ?ev (bearer ?tA) 2000
              (logged_in_again ?ev))) = 200"
    by (simp add: authController_refreshToken_def extractToken_def bearer_def vr uf ga al
        reply_def Let_def)
  have ne: "?tA \<noteq> ?tB" by simp
  have inv: "one_row_per_user (logged_in_again ?ev)" by (simp add: d2 one_row_per_user_def)
  show ?thesis using l1 l2 d2 fA fB st ne inv by simp
qed

section \<open>Login\<close>

text \<open>
  Claim C2, as amended. After a successful login the access token is signed for
  \<^verbatim>\<open>ACCESS_TOKEN_EXPIRES_IN\<close>, the refresh token for
  \<^verbatim>\<open>REFRESH_TOKEN_EXPIRES_IN\<close> and the stored row expires seven days after the
  login, all three whatever \<^verbatim>\<open>rememberMe\<close> is; the access cookie lasts one
  hour; only the \<^verbatim>\<open>maxAge\<close> of the refresh-token and remember-flag cookies
  depends on \<^verbatim>\<open>rememberMe\<close>: thirty days with it, seven without.
\<close>

theorem login_lifetimes:
  assumes ok: "status (fst (login_issue ev slt usr rm t d)) = 200"
  shows "lifetime (out_accessToken (fst (login_issue ev slt usr rm t d)))
           = Some (ACCESS_TOKEN_EXPIRES_IN ev) \<and>
         lifetime (out_refreshToken (fst (login_issue ev slt usr rm t d)))
           = Some (REFRESH_TOKEN_EXPIRES_IN ev) \<and>
         (\<exists>uidx. userindex usr = Some uidx \<and>
            map expires_at (filter (\<lambda>x. user_id x = uidx)
                (refresh_token (snd (login_issue ev slt usr rm t d))))
              = [t + 604800000]) \<and>
         map (\<lambda>c. (cname c, maxAge c)) (set_cookies (fst (login_issue ev slt usr rm t d)))
           = [(''accessToken'', 3600000),
              (''refreshToken'', if rm then 2592000000 else 604800000),
              (''rememberMe'', if rm then 2592000000 else 604800000)]"
proof (cases "userindex usr")
  case None
  with ok show ?thesis by (simp add: login_issue_def reply_def)
next
  case (Some uidx)
  let ?info = "\<lparr>c_id = Some uidx, c_userid = userid usr, c_name = name usr,
                 c_rememberMe = Some rm\<rparr>"
  show ?thesis
  proof (cases "generateAccessToken ev ?info t")
    case (Inl e)
    with ok Some show ?thesis by (simp add: login_issue_def reply_def)
  next
    case (Inr at)
    then have la: "lifetime (Some at) = Some (ACCESS_TOKEN_EXPIRES_IN ev)"
      by (auto simp: generateAccessToken_def jwt_sign_def lifetime_def
          split: option.splits if_splits)
    show ?thesis
    proof (cases "generateRefreshToken ev ?info t")
      case (Inl e)
      with ok Some Inr show ?thesis by (simp add: login_issue_def reply_def)
    next
      case rt: (Inr rtok)
      then have lr: "lifetime (Some rtok) = Some (REFRESH_TOKEN_EXPIRES_IN ev)"
        by (auto simp: generateRefreshToken_def jwt_sign_def lifetime_def
            split: option.splits if_splits)
      obtain res d1 where sv: "saveRefreshToken ev slt uidx rtok t d = (res, d1)"
        by (cases "saveRefreshToken ev slt uidx rtok t d")
      show ?thesis
      proof (cases res)
        case (Inl e)
        with ok Some Inr rt sv show ?thesis by (simp add: login_issue_def reply_def)
      next
        case row: (Inr r)
        from sv row have sv': "Token_saveRefreshToken uidx (Some (bcrypt_hash ev slt rtok))
            (Some (t + 604800000)) d = (Inr r, d1)"
          by (simp add: saveRefreshToken_def)
        have "filter (\<lambda>x. user_id x = uidx) (refresh_token d1) = [r]"
          using sv' by (rule save_only_row)
        moreover have "expires_at r = t + 604800000" using save_Inr[OF sv'] by simp
        ultimately have ex: "map expires_at (filter (\<lambda>x. user_id x = uidx) (refresh_token d1))
            = [t + 604800000]" by simp
        have res: "login_issue ev slt usr rm t d =
           ((reply 200 True LoginOk)
              \<lparr>out_accessToken := Some at, out_refreshToken := Some rtok,
               out_rememberMe := Some rm,
               set_cookies := setTokenCookies ev at rtok rm\<rparr>, d1)"
          using Some Inr rt sv row by (simp add: login_issue_def)
        show ?thesis unfolding res using la lr ex Some
          by (simp add: setTokenCookies_def reply_def)
      qed
    qed
  qed
qed


theorem login_lifetimes_witness:
  "status (fst (login_issue env0 7 alice_user True 0 db0)) = 200 \<and>
   lifetime (out_accessToken (fst (login_issue env0 7 alice_user True 0 db0))) = Some 3600 \<and>
   lifetime (out_refreshToken (fst (login_issue env0 7 alice_user True 0 db0))) = Some 604800 \<and>
   map (\<lambda>c. (cname c, maxAge c)) (set_cookies (fst (login_issue env0 7 alice_user True 0 db0)))
     = [(''accessToken'', 3600000), (''refreshToken'', 2592000000),
        (''rememberMe'', 2592000000)] \<and>
   status (fst (login_issue env0 7 alice_user False 0 db0)) = 200 \<and>
   lifetime (out_accessToken (fst (login_issue env0 7 alice_user False 0 db0))) = Some 3600 \<and>
   lifetime (out_refreshToken (fst (login_issue env0 7 alice_user False 0 db0))) = Some 604800 \<and>
   map (\<lambda>c. (cname c, maxAge c)) (set_cookies (fst (login_issue env0 7 alice_user False 0 db0)))
     = [(''accessToken'', 3600000), (''refreshToken'', 604800000),
        (''rememberMe'', 604800000)]"
proof -
  have s1: "status (fst (login_issue env0 7 alice_user True 0 db0)) = 200"
    by (simp add: eval_defs)
  have s2: "status (fst (login_issue env0 7 alice_user False 0 db0)) = 200"
    by (simp add: eval_defs)
  have e: "ACCESS_TOKEN_EXPIRES_IN env0 = 3600" "REFRESH_TOKEN_EXPIRES_IN env0 = 604800"
    by (simp_all add: env0_def)
  show ?thesis using login_lifetimes[OF s1] login_lifetimes[OF s2] s1 s2 e by simp
qed

text \<open>
  The claim as stated fails: with \<^verbatim>\<open>rememberMe = true\<close> and the default
  configuration the refresh token is signed for seven days and its row expires after
  seven days, not thirty.
\<close>

theorem login_lifetimes_counterexample:
  "status (fst (login_issue env0 7 alice_user True 0 db0)) = 200 \<and>
   out_refreshToken (fst (login_issue env0 7 alice_user True 0 db0))
     = Some (Jwt \<lparr>c_id = Some 1, c_userid = ''alice'', c_name = ''Alice'',
                  c_rememberMe = Some True\<rparr> 0 604800 ''r-secret'') \<and>
   map expires_at (refresh_token (snd (login_issue env0 7 alice_user True 0 db0)))
     = [7 * 24 * 60 * 60 * 1000] \<and>
   map expires_at (refresh_token (snd (login_issue env0 7 alice_user True 0 db0)))
     \<noteq> [30 * 24 * 60 * 60 * 1000] \<and>
   lifetime (out_refreshToken (fst (login_issue env0 7 alice_user True 0 db0)))
     = Some (7 * 24 * 60 * 60) \<and>
   lifetime (out_refreshToken (fst (login_issue env0 7 alice_user True 0 db0)))
     \<noteq> Some (30 * 24 * 60 * 60)"
  by (simp add: eval_defs lifetime_def)


end
